(* ===== verification/Prelude.thy ===== *)
theory Prelude
  imports Main "HOL-Library.Sublist" "HOL-Library.Multiset" "HOL-Library.AList"
    "HOL-Library.Monad_Syntax"
begin

text \<open>
  The prelude of the traefik-kop development: the theorem collections, the representation of
  Go maps, the nondeterministic order of \<open>range\<close> loops and the generic lemmas on association
  lists and on the option monad that the component theories share.

  A Go map with string keys is an association list with distinct keys; a nil map is the empty
  list (no operation of the program tells a nil map from an empty one). The order in which a
  \<open>range\<close> loop visits a map is unspecified in Go: a loop draws a seed from the run-time
  environment and visits the entries in the order \<open>permute seed\<close>. Every permutation is the
  result of some seed (\<open>permute_surj\<close>), so a theorem for every seed is a theorem for every
  iteration order the Go run time may choose.
\<close>

named_theorems go_simps \<open>simplification rules for the Go library functions\<close>
named_theorems frame_simps \<open>fields that an operation leaves unchanged\<close>

section \<open>Go maps\<close>

type_synonym ('k, 'v) gomap = "('k \<times> 'v) list"
type_synonym labels = "(string, string) gomap"

abbreviation keys_of :: "('k, 'v) gomap \<Rightarrow> 'k list" where
  "keys_of m \<equiv> map fst m"

text \<open>A map read of the form \<open>m[k]\<close> yields the zero value when the key is absent.\<close>

definition get_str :: "(string, string) gomap \<Rightarrow> string \<Rightarrow> string" where
  "get_str m k = (case map_of m k of None \<Rightarrow> [] | Some v \<Rightarrow> v)"

definition wf_map :: "('k, 'v) gomap \<Rightarrow> bool" where
  "wf_map m \<longleftrightarrow> distinct (keys_of m)"

section \<open>The order of a range loop\<close>

fun permute :: "nat \<Rightarrow> 'a list \<Rightarrow> 'a list" where
  "permute n [] = []"
| "permute n (x # xs) =
     (let m = Suc (length xs); k = n mod m; ys = permute (n div m) xs
      in take k ys @ x # drop k ys)"

lemma mset_permute [simp]: "mset (permute n xs) = mset xs"
proof (induction n xs rule: permute.induct)
  case (2 n x xs)
  let ?m = "Suc (length xs)"
  have "mset (permute (n div ?m) xs) = mset xs" using "2" by simp
  moreover have "mset (take k ys) + mset (drop k ys) = mset ys" for k and ys :: "'a list"
    by (simp flip: mset_append)
  ultimately show ?case by (simp add: Let_def)
qed simp

lemma set_permute [simp]: "set (permute n xs) = set xs"
  by (metis mset_permute set_mset_mset)

lemma length_permute [simp]: "length (permute n xs) = length xs"
  by (metis mset_permute size_mset)

lemma distinct_permute [simp]: "distinct (permute n xs) = distinct xs"
  by (metis mset_eq_imp_distinct_iff mset_permute)

lemma permute_eq_Nil [simp]: "permute n xs = [] \<longleftrightarrow> xs = []"
  by (metis length_0_conv length_permute)

lemma permute_single [simp]: "permute n [x] = [x]"
  by simp

lemma keys_permute [simp]: "set (keys_of (permute n m)) = set (keys_of m)"
  by simp

lemma distinct_keys_permute [simp]: "distinct (keys_of (permute n m)) = distinct (keys_of m)"
  by (metis mset_eq_imp_distinct_iff mset_map mset_permute)

lemma wf_map_permute [simp]: "wf_map (permute n m) = wf_map m"
  by (simp add: wf_map_def)

lemma map_of_permute [simp]: "wf_map m \<Longrightarrow> map_of (permute n m) = map_of m"
  unfolding wf_map_def
  by (rule map_of_inject_set [THEN iffD2]) simp_all

text \<open>Every order of the entries is chosen by some seed.\<close>

lemma permute_surj: "mset ys = mset xs \<Longrightarrow> \<exists>n. permute n xs = ys"
proof (induction xs arbitrary: ys)
  case (Cons x xs)
  let ?m = "Suc (length xs)"
  from Cons.prems have "x \<in> set ys" by (metis list.set_intros(1) set_mset_mset)
  then obtain as bs where ys: "ys = as @ x # bs" by (meson split_list)
  with Cons.prems have ms: "mset (as @ bs) = mset xs" by simp
  from Cons.IH [OF ms] obtain q where q: "permute q xs = as @ bs" by blast
  have len: "length as < ?m" using arg_cong [OF ms, of size] by simp
  let ?n = "q * ?m + length as"
  have "?n mod ?m = length as" using len by (simp only: mod_mult_self3) simp
  moreover have "?n div ?m = q" using len by (simp only: div_mult_self3) simp
  ultimately have "permute ?n (x # xs) = ys" using q ys by (simp only: permute.simps Let_def) simp
  then show ?case by blast
qed simp

section \<open>Association lists\<close>

lemma wf_map_Nil [simp]: "wf_map []"
  by (simp add: wf_map_def)

lemma wf_map_Cons [simp]: "wf_map ((k, v) # m) \<longleftrightarrow> k \<notin> set (keys_of m) \<and> wf_map m"
  by (simp add: wf_map_def)

lemma wf_map_update [simp]: "wf_map m \<Longrightarrow> wf_map (AList.update k v m)"
  by (simp add: wf_map_def distinct_update)

lemma wf_map_delete [simp]: "wf_map m \<Longrightarrow> wf_map (AList.delete k m)"
  by (simp add: wf_map_def distinct_delete)

lemma wf_map_filter [simp]: "wf_map m \<Longrightarrow> wf_map (filter P m)"
  by (auto simp: wf_map_def distinct_map inj_on_def)

lemma wf_map_lookup: "wf_map m \<Longrightarrow> map_of m k = Some v \<longleftrightarrow> (k, v) \<in> set m"
  by (simp add: wf_map_def)

lemma get_str_update [simp]:
  "get_str (AList.update k v m) k' = (if k' = k then v else get_str m k')"
  by (simp add: get_str_def update_conv')

lemma get_str_nonempty: "get_str m k \<noteq> [] \<Longrightarrow> map_of m k = Some (get_str m k)"
  by (auto simp: get_str_def split: option.splits)

lemma get_str_absent: "k \<notin> set (keys_of m) \<Longrightarrow> get_str m k = []"
  by (simp add: get_str_def map_of_eq_None_iff image_iff split: option.splits)
     (metis fst_conv map_of_eq_None_iff image_iff option.distinct(1))

lemma delete_filter: "AList.delete k m = filter (\<lambda>(k', _). k' \<noteq> k) m"
  by (induction m) auto

section \<open>Loops in the option monad\<close>

text \<open>
  A run-time panic is \<open>None\<close>. \<open>loop f xs s\<close> is the loop \<open>for x := range xs { s = f(x, s) }\<close>
  whose body may panic.
\<close>

fun loop :: "('a \<Rightarrow> 's \<Rightarrow> 's option) \<Rightarrow> 'a list \<Rightarrow> 's \<Rightarrow> 's option" where
  "loop f [] s = Some s"
| "loop f (x # xs) s = (case f x s of None \<Rightarrow> None | Some s' \<Rightarrow> loop f xs s')"

lemma loop_append: "loop f (xs @ ys) s = Option.bind (loop f xs s) (loop f ys)"
  by (induction xs arbitrary: s) (auto split: option.splits)

lemma loop_cong [fundef_cong]:
  "xs = ys \<Longrightarrow> s = t \<Longrightarrow> (\<And>x u. x \<in> set ys \<Longrightarrow> f x u = g x u) \<Longrightarrow> loop f xs s = loop g ys t"
proof (induction xs arbitrary: ys s t)
  case (Cons x xs)
  then show ?case by (auto split: option.splits)
qed simp

lemma loop_invariant:
  assumes "loop f xs s = Some s'" and "I s"
    and "\<And>x u u'. x \<in> set xs \<Longrightarrow> I u \<Longrightarrow> f x u = Some u' \<Longrightarrow> I u'"
  shows "I s'"
  using assms
proof (induction xs arbitrary: s)
  case (Cons x xs)
  from Cons.prems(1) obtain u where u: "f x s = Some u" and l: "loop f xs u = Some s'"
    by (auto split: option.splits)
  from Cons.prems(3) [OF _ Cons.prems(2) u] have "I u" by simp
  with Cons.IH [OF l] Cons.prems(3) show ?case by (meson list.set_intros(2))
qed simp

lemma loop_total:
  assumes "I s" and "\<And>x u. x \<in> set xs \<Longrightarrow> I u \<Longrightarrow> \<exists>u'. f x u = Some u' \<and> I u'"
  shows "\<exists>s'. loop f xs s = Some s' \<and> I s'"
  using assms
proof (induction xs arbitrary: s)
  case (Cons x xs)
  then obtain u where "f x s = Some u" "I u" by force
  with Cons.IH [of u] Cons.prems(2) show ?case by auto
qed simp

text \<open>A fact that holds after the step for \<open>x\<close> and that later steps keep holds at the end.\<close>

lemma loop_establishes:
  assumes "loop f xs s = Some s'" and "x \<in> set xs" and "I s"
    and "\<And>y u u'. y \<in> set xs \<Longrightarrow> I u \<Longrightarrow> f y u = Some u' \<Longrightarrow> I u'"
    and "\<And>u u'. I u \<Longrightarrow> f x u = Some u' \<Longrightarrow> Q u'"
    and "\<And>y u u'. y \<in> set xs \<Longrightarrow> I u \<Longrightarrow> Q u \<Longrightarrow> f y u = Some u' \<Longrightarrow> Q u'"
  shows "Q s'"
proof -
  from assms(2) obtain as bs where xs: "xs = as @ x # bs" by (meson split_list)
  from assms(1) xs obtain u v where as: "loop f as s = Some u" and x: "f x u = Some v"
    and bs: "loop f bs v = Some s'"
    by (auto simp: loop_append bind_eq_Some_conv split: option.splits)
  have sub: "set as \<subseteq> set xs" "x \<in> set xs" "set bs \<subseteq> set xs" using xs by auto
  have "I u" using as assms(3,4) sub(1) by (blast intro: loop_invariant [of f as s u I])
  then have "I v \<and> Q v" using x assms(4,5) sub(2) by blast
  from loop_invariant [where I = "\<lambda>w. I w \<and> Q w", OF bs this] assms(4,6) sub(3)
  show ?thesis by blast
qed

text \<open>A loop that deletes the visited keys that fail \<open>P\<close> filters the map.\<close>

lemma loop_delete:
  assumes "I w" and "\<And>x m u. x \<in> set xs \<Longrightarrow> I u \<Longrightarrow>
      \<exists>u'. I u' \<and> f x (m, u) = Some (if P (g x) then m else AList.delete (g x) m, u')"
  shows "\<exists>w'. I w' \<and> loop f xs (m, w) = Some (filter (\<lambda>(k, _). k \<notin> g ` set xs \<or> P k) m, w')"
  using assms
proof (induction xs arbitrary: m w)
  case (Cons x xs)
  let ?m = "if P (g x) then m else AList.delete (g x) m"
  obtain u where u: "I u" "f x (m, w) = Some (?m, u)"
    using Cons.prems(2) [of x w m] Cons.prems(1) by auto
  from Cons.IH [of u ?m] u(1) Cons.prems(2) obtain w' where
    "I w'" "loop f xs (?m, u) = Some (filter (\<lambda>(k, _). k \<notin> g ` set xs \<or> P k) ?m, w')"
    by (meson list.set_intros(2))
  moreover have "filter (\<lambda>(k, _). k \<notin> g ` set xs \<or> P k) ?m
      = filter (\<lambda>(k, _). k \<notin> g ` set (x # xs) \<or> P k) m"
    by (auto simp: delete_filter intro!: filter_cong)
  ultimately show ?case using u(2) by auto
qed simp

text \<open>A loop that only deletes keys leaves a part of the map.\<close>

lemma loop_shrinks:
  assumes "loop f xs (m, w) = Some (m', w')"
    and "\<And>x n n' u u'. f x (n, u) = Some (n', u') \<Longrightarrow> n' = n \<or> (\<exists>k. n' = AList.delete k n)"
  shows "\<exists>P. m' = filter P m"
  using assms(1)
proof (induction xs arbitrary: m w)
  case Nil
  then show ?case by (intro exI [of _ "\<lambda>_. True"]) simp
next
  case (Cons x xs)
  then obtain n u where n: "f x (m, w) = Some (n, u)" "loop f xs (n, u) = Some (m', w')"
    by (auto split: option.splits)
  with Cons.IH obtain P where P: "m' = filter P n" by blast
  from assms(2) [OF n(1)] show ?case
  proof
    assume "\<exists>k. n = AList.delete k m"
    then obtain k where "n = AList.delete k m" by blast
    with P show ?thesis by (intro exI [of _ "\<lambda>e. case_prod (\<lambda>k' _. k' \<noteq> k) e \<and> P e"]) (simp add: delete_filter conj_commute)
  qed (use P in blast)
qed

text \<open>
  A loop that overwrites the entry of each visited key. \<open>g\<close> is the new value, \<open>None\<close> a panic. The
  order in which the entries are visited does not show in the result.
\<close>

definition map_entries :: "('k \<Rightarrow> 'v \<Rightarrow> 'v option) \<Rightarrow> ('k, 'v) gomap \<Rightarrow> ('k, 'v) gomap option" where
  "map_entries g m =
     (if list_all (\<lambda>(k, v). g k v \<noteq> None) m then Some (map (\<lambda>(k, v). (k, the (g k v))) m) else None)"

lemma update_map:
  "wf_map m \<Longrightarrow> k \<in> set (keys_of m) \<Longrightarrow>
     AList.update k x m = map (\<lambda>(k', v). (k', if k' = k then x else v)) m"
proof (induction m)
  case (Cons e m)
  obtain k' v where e: "e = (k', v)" by (cases e)
  have "map (\<lambda>(k'', v). (k'', if k'' = k' then x else v)) m = m" if "k' \<notin> set (keys_of m)"
    using that by (force intro!: map_idI)
  with Cons e show ?case by auto
qed simp

definition overwrite :: "('k \<Rightarrow> 'v \<Rightarrow> 'v option) \<Rightarrow> ('k, 'v) gomap \<Rightarrow> ('k, 'v) gomap \<Rightarrow> ('k, 'v) gomap" where
  "overwrite g xs m = fold (\<lambda>(k, v). AList.update k (the (g k v))) xs m"

lemma overwrite_eq:
  assumes "wf_map m" and "wf_map xs" and "set (keys_of xs) \<subseteq> set (keys_of m)"
  shows "overwrite g xs m
    = map (\<lambda>(k, v). (k, case map_of xs k of None \<Rightarrow> v | Some v' \<Rightarrow> the (g k v'))) m"
  using assms
proof (induction xs arbitrary: m)
  case (Cons e xs)
  obtain k v where e: "e = (k, v)" by (cases e)
  let ?m = "AList.update k (the (g k v)) m"
  have m: "?m = map (\<lambda>(k', u). (k', if k' = k then the (g k v) else u)) m"
    using Cons.prems e by (intro update_map) auto
  have k: "map_of xs k = None" using Cons.prems(2) e by (simp add: map_of_eq_None_iff)
  have "overwrite g xs ?m
      = map (\<lambda>(k, v). (k, case map_of xs k of None \<Rightarrow> v | Some v' \<Rightarrow> the (g k v'))) ?m"
    using Cons.prems e by (intro Cons.IH) (auto simp: dom_update)
  with k show ?case by (auto simp: overwrite_def e m split: option.splits)
qed (simp add: overwrite_def)

lemma overwrite_permute:
  assumes "wf_map m"
  shows "overwrite g (permute seed m) m = map (\<lambda>(k, v). (k, the (g k v))) m"
proof -
  have "overwrite g (permute seed m) m
      = map (\<lambda>(k, v). (k, case map_of m k of None \<Rightarrow> v | Some v' \<Rightarrow> the (g k v'))) m"
    using overwrite_eq [of m "permute seed m"] assms by simp
  also have "\<dots> = map (\<lambda>(k, v). (k, the (g k v))) m"
    using assms by (intro map_cong) (auto simp: wf_map_def)
  finally show ?thesis .
qed

lemma loop_overwrite:
  assumes "I w" and "\<And>k v n u. (k, v) \<in> set xs \<Longrightarrow> I u \<Longrightarrow>
      \<exists>u'. I u' \<and> f (k, v) (n, u) = map_option (\<lambda>v'. (AList.update k v' n, u')) (g k v)"
  shows "\<exists>w'. I w' \<and> loop f xs (m, w)
    = (if list_all (\<lambda>(k, v). g k v \<noteq> None) xs then Some (overwrite g xs m, w') else None)"
  using assms
proof (induction xs arbitrary: m w)
  case (Cons e xs)
  obtain k v where e: "e = (k, v)" by (cases e)
  obtain u where u: "I u" "f (k, v) (m, w) = map_option (\<lambda>v'. (AList.update k v' m, u)) (g k v)"
    using Cons.prems e by (meson list.set_intros(1))
  show ?case
  proof (cases "g k v")
    case None
    with u e show ?thesis by auto
  next
    case (Some x)
    have "\<exists>w'. I w' \<and> loop f xs (AList.update k x m, u)
      = (if list_all (\<lambda>(k, v). g k v \<noteq> None) xs then Some (overwrite g xs (AList.update k x m), w') else None)"
      using u(1) Cons.prems(2) by (intro Cons.IH) auto
    with Some u(2) e show ?thesis by (auto simp: overwrite_def)
  qed
qed (auto simp: overwrite_def)

lemma loop_map_entries:
  assumes "I w" and "wf_map m" and "\<And>k v n u. (k, v) \<in> set m \<Longrightarrow> I u \<Longrightarrow>
      \<exists>u'. I u' \<and> f (k, v) (n, u) = map_option (\<lambda>v'. (AList.update k v' n, u')) (g k v)"
  shows "\<exists>w'. I w' \<and> loop f (permute seed m) (m, w) = map_option (\<lambda>m'. (m', w')) (map_entries g m)"
proof -
  have "\<exists>w'. I w' \<and> loop f (permute seed m) (m, w)
    = (if list_all (\<lambda>(k, v). g k v \<noteq> None) (permute seed m)
       then Some (overwrite g (permute seed m) m, w') else None)"
    using assms(1,3) by (intro loop_overwrite) auto
  moreover have "list_all (\<lambda>(k, v). g k v \<noteq> None) (permute seed m) = list_all (\<lambda>(k, v). g k v \<noteq> None) m"
    by (simp add: list_all_iff)
  ultimately show ?thesis
    by (simp add: map_entries_def overwrite_permute [OF assms(2)] if_distrib cong: if_cong)
qed

text \<open>
  A loop that rewrites the entry of each visited key, where the new value is only known up to a
  relation \<open>R\<close>.
\<close>

definition entrywise :: "('k \<Rightarrow> 'v \<Rightarrow> 'v \<Rightarrow> bool) \<Rightarrow> ('k, 'v) gomap \<Rightarrow> ('k, 'v) gomap \<Rightarrow> bool" where
  "entrywise R m m' \<longleftrightarrow> keys_of m' = keys_of m
     \<and> (\<forall>k v. map_of m k = Some v \<longrightarrow> (\<exists>v'. map_of m' k = Some v' \<and> R k v v'))"

lemma loop_entrywise_aux:
  assumes "I w" and "distinct ks" and "set ks \<subseteq> set (keys_of m)"
    and "\<And>k n v u. k \<in> set ks \<Longrightarrow> I u \<Longrightarrow> map_of n k = Some v \<Longrightarrow>
      \<exists>u' v'. I u' \<and> R k v v' \<and> f k (n, u) = Some (AList.update k v' n, u')"
  shows "\<exists>w' m'. I w' \<and> loop f ks (m, w) = Some (m', w')
    \<and> entrywise (\<lambda>k v v'. if k \<in> set ks then R k v v' else v' = v) m m'"
  using assms
proof (induction ks arbitrary: m w)
  case Nil
  then show ?case by (auto simp: entrywise_def)
next
  case (Cons k ks)
  obtain v where v: "map_of m k = Some v" using Cons.prems(3)
    by (metis list.set_intros(1) map_of_eq_None_iff not_None_eq set_map subsetD)
  obtain u v' where u: "I u" "R k v v'" "f k (m, w) = Some (AList.update k v' m, u)"
    using Cons.prems(4) [OF _ Cons.prems(1) v] by auto
  let ?m = "AList.update k v' m"
  have k: "keys_of ?m = keys_of m" using v
    by (metis map_of_eq_None_iff option.distinct(1) set_map update_keys)
  have "\<exists>w' m'. I w' \<and> loop f ks (?m, u) = Some (m', w')
      \<and> entrywise (\<lambda>k v v'. if k \<in> set ks then R k v v' else v' = v) ?m m'"
    using u(1) Cons.prems k by (intro Cons.IH) auto
  then obtain w' m' where l: "I w'" "loop f ks (?m, u) = Some (m', w')"
    and e: "entrywise (\<lambda>k v v'. if k \<in> set ks then R k v v' else v' = v) ?m m'" by blast
  have nk: "k \<notin> set ks" using Cons.prems(2) by simp
  have "\<exists>y. map_of m' k' = Some y \<and> (if k' \<in> set (k # ks) then R k' x y else y = x)"
    if x: "map_of m k' = Some x" for k' x
  proof (cases "k' = k")
    case True
    have "map_of ?m k = Some v'" by (simp add: update_conv')
    with e nk True have "map_of m' k' = Some v'" unfolding entrywise_def by metis
    with True x v u(2) show ?thesis by auto
  next
    case False
    with x have "map_of ?m k' = Some x" by (simp add: update_conv')
    with e False show ?thesis by (simp add: entrywise_def)
  qed
  with e k have "entrywise (\<lambda>k' v v'. if k' \<in> set (k # ks) then R k' v v' else v' = v) m m'"
    unfolding entrywise_def by simp
  with l u(3) show ?case by auto
qed

lemma loop_entrywise:
  assumes "I w" and "wf_map m"
    and "\<And>k n v u. k \<in> set (keys_of m) \<Longrightarrow> I u \<Longrightarrow> map_of n k = Some v \<Longrightarrow>
      \<exists>u' v'. I u' \<and> R k v v' \<and> f k (n, u) = Some (AList.update k v' n, u')"
  shows "\<exists>w' m'. I w' \<and> loop f (permute seed (keys_of m)) (m, w) = Some (m', w') \<and> entrywise R m m'"
proof -
  have "\<exists>w' m'. I w' \<and> loop f (permute seed (keys_of m)) (m, w) = Some (m', w')
    \<and> entrywise (\<lambda>k v v'. if k \<in> set (permute seed (keys_of m)) then R k v v' else v' = v) m m'"
    using assms by (intro loop_entrywise_aux) (auto simp: wf_map_def)
  then show ?thesis unfolding entrywise_def
    by (auto simp: map_of_eq_Some_iff) (metis (no_types, lifting) fst_conv image_eqI map_of_SomeD)+
qed

text \<open>A map is determined by its keys and their values; a map changed nowhere is the same map.\<close>

lemma keys_map_entries: "map_entries g m = Some m' \<Longrightarrow> keys_of m' = keys_of m"
  by (auto simp: map_entries_def split: if_splits)

lemma wf_map_rebuild: "wf_map m \<Longrightarrow> m = map (\<lambda>k. (k, the (map_of m k))) (keys_of m)"
  by (auto simp: wf_map_def comp_def intro!: map_idI [symmetric])

lemma entrywise_eq:
  assumes "entrywise R m m'" and "wf_map m" and "\<And>k v v'. R k v v' \<Longrightarrow> v' = v"
  shows "m' = m"
proof -
  have k: "keys_of m' = keys_of m" using assms(1) by (simp add: entrywise_def)
  have "map_of m' k = map_of m k" if "k \<in> set (keys_of m)" for k
  proof -
    from that have "map_of m k \<noteq> None" by (simp add: map_of_eq_None_iff)
    then obtain v where v: "map_of m k = Some v" by blast
    then obtain v' where v': "map_of m' k = Some v'" "R k v v'" using assms(1) unfolding entrywise_def by blast
    with assms(3) [OF v'(2)] v show ?thesis by simp
  qed
  then have "map (\<lambda>k. (k, the (map_of m' k))) (keys_of m') = map (\<lambda>k. (k, the (map_of m k))) (keys_of m)"
    unfolding k by (intro map_cong) auto
  moreover have "wf_map m'" using assms(2) k by (simp add: wf_map_def)
  ultimately show ?thesis using wf_map_rebuild [of m] wf_map_rebuild [of m'] assms(2) by metis
qed

end
