(* ===== verification/GoStrings.thy ===== *)
theory GoStrings
  imports Prelude "HOL-Library.List_Lexorder" "HOL-Library.Char_ord"
begin

text \<open>
  The functions of the Go packages \<open>strings\<close>, \<open>strconv\<close> and \<open>fmt\<close> that traefik-kop calls.
  A Go string is a sequence of bytes, as an Isabelle \<open>string\<close> is. The order on strings is the
  bytewise lexicographic order of \<open>sort.Strings\<close>.

  \<open>TrimSpace\<close> strips the UTF-8 encodings of the Unicode white space characters, byte sequence
  by byte sequence. \<open>ToLower\<close> lowers the ASCII letters and leaves every other byte: it is Go's
  function on ASCII text, which Docker label keys are.
  \<open>Sprintf0\<close> is \<open>fmt.Sprintf\<close> applied to a format and no operands.
\<close>

section \<open>Package strings\<close>

abbreviation HasPrefix :: "string \<Rightarrow> string \<Rightarrow> bool" where
  "HasPrefix s p \<equiv> prefix p s"

abbreviation HasSuffix :: "string \<Rightarrow> string \<Rightarrow> bool" where
  "HasSuffix s p \<equiv> suffix p s"

definition Contains :: "string \<Rightarrow> string \<Rightarrow> bool" where
  "Contains s p = sublist p s"

definition TrimPrefix :: "string \<Rightarrow> string \<Rightarrow> string" where
  "TrimPrefix s p = (if HasPrefix s p then drop (length p) s else s)"

definition TrimSuffix :: "string \<Rightarrow> string \<Rightarrow> string" where
  "TrimSuffix s p = (if HasSuffix s p then take (length s - length p) s else s)"

text \<open>\<open>strings.Split\<close> with a separator of one byte.\<close>

fun Split :: "string \<Rightarrow> char \<Rightarrow> string list" where
  "Split [] c = [[]]"
| "Split (x # xs) c =
     (if x = c then [] # Split xs c
      else case Split xs c of [] \<Rightarrow> [[x]] | y # ys \<Rightarrow> (x # y) # ys)"

fun Join :: "string list \<Rightarrow> string \<Rightarrow> string" where
  "Join [] sep = []"
| "Join [x] sep = x"
| "Join (x # y # ys) sep = x @ sep @ Join (y # ys) sep"

text \<open>The UTF-8 encodings of the characters with the Unicode property White_Space.\<close>

definition white_space :: "string list" where
  "white_space =
     [[CHR 0x09], [CHR 0x0A], [CHR 0x0B], [CHR 0x0C], [CHR 0x0D], [CHR 0x20],
      [CHR 0xC2, CHR 0x85], [CHR 0xC2, CHR 0xA0], [CHR 0xE1, CHR 0x9A, CHR 0x80],
      [CHR 0xE2, CHR 0x80, CHR 0x80], [CHR 0xE2, CHR 0x80, CHR 0x81],
      [CHR 0xE2, CHR 0x80, CHR 0x82], [CHR 0xE2, CHR 0x80, CHR 0x83],
      [CHR 0xE2, CHR 0x80, CHR 0x84], [CHR 0xE2, CHR 0x80, CHR 0x85],
      [CHR 0xE2, CHR 0x80, CHR 0x86], [CHR 0xE2, CHR 0x80, CHR 0x87],
      [CHR 0xE2, CHR 0x80, CHR 0x88], [CHR 0xE2, CHR 0x80, CHR 0x89],
      [CHR 0xE2, CHR 0x80, CHR 0x8A], [CHR 0xE2, CHR 0x80, CHR 0xA8],
      [CHR 0xE2, CHR 0x80, CHR 0xA9], [CHR 0xE2, CHR 0x80, CHR 0xAF],
      [CHR 0xE2, CHR 0x81, CHR 0x9F], [CHR 0xE3, CHR 0x80, CHR 0x80]]"

lemma white_space_nonempty: "[] \<notin> set white_space"
  by (simp add: white_space_def)

function trim_left :: "string list \<Rightarrow> string \<Rightarrow> string" where
  "trim_left ws s = (case find (\<lambda>w. w \<noteq> [] \<and> HasPrefix s w) ws of
     None \<Rightarrow> s | Some w \<Rightarrow> trim_left ws (drop (length w) s))"
  by pat_completeness auto
termination
proof (relation "measure (length \<circ> snd)", simp)
  fix ws s w assume "find (\<lambda>w. w \<noteq> [] \<and> HasPrefix s w) ws = Some w"
  then have "w \<noteq> []" "prefix w s" by (auto simp: find_Some_iff)
  then show "((ws, drop (length w) s), ws, s) \<in> measure (length \<circ> snd)"
    by (cases s; cases w) (auto simp: prefix_length_le)
qed

declare trim_left.simps [simp del]

definition TrimSpace :: "string \<Rightarrow> string" where
  "TrimSpace s = rev (trim_left (map rev white_space) (rev (trim_left white_space s)))"

definition lower :: "char \<Rightarrow> char" where
  "lower c = (if 65 \<le> (of_char c :: nat) \<and> (of_char c :: nat) \<le> 90
              then char_of ((of_char c :: nat) + 32) else c)"

definition ToLower :: "string \<Rightarrow> string" where
  "ToLower s = map lower s"

definition is_upper :: "char \<Rightarrow> bool" where
  "is_upper c \<longleftrightarrow> 65 \<le> (of_char c :: nat) \<and> (of_char c :: nat) \<le> 90"

section \<open>Package strconv\<close>

definition is_digit :: "char \<Rightarrow> bool" where
  "is_digit c \<longleftrightarrow> 48 \<le> (of_char c :: nat) \<and> (of_char c :: nat) \<le> 57"

fun itoa_nat :: "nat \<Rightarrow> string" where
  "itoa_nat n = (if n < 10 then [char_of (48 + n)] else itoa_nat (n div 10) @ [char_of (48 + n mod 10)])"

declare itoa_nat.simps [simp del]

definition FormatInt :: "int \<Rightarrow> string" where
  "FormatInt i = (if i < 0 then ''-'' @ itoa_nat (nat (- i)) else itoa_nat (nat i))"

definition FormatBool :: "bool \<Rightarrow> string" where
  "FormatBool b = (if b then ''true'' else ''false'')"

text \<open>\<open>strconv.ParseBool\<close>: \<open>None\<close> is the syntax error.\<close>

definition ParseBool :: "string \<Rightarrow> bool option" where
  "ParseBool s =
     (if s \<in> set [''1'', ''t'', ''T'', ''TRUE'', ''true'', ''True''] then Some True
      else if s \<in> set [''0'', ''f'', ''F'', ''FALSE'', ''false'', ''False''] then Some False
      else None)"

text \<open>The value part of \<open>b, _ := strconv.ParseBool(s)\<close>: an error leaves \<open>false\<close>.\<close>

definition ParseBool_val :: "string \<Rightarrow> bool" where
  "ParseBool_val s = (ParseBool s = Some True)"

section \<open>Package fmt: a format with no operands\<close>

text \<open>
  \<open>fmt.Sprintf(format)\<close> copies the bytes outside directives. A directive is a percent sign,
  flags, an optional argument index, a width, a precision and a verb; with no operand every verb
  but \<open>%\<close> is reported as missing, a star as a bad width or precision, an argument index as a
  bad index. \<open>parsenum\<close> gives up on numbers beyond a million, as the library does, and then
  skips to the end. A verb that is not ASCII is one character of valid UTF-8 text.
\<close>

fun parsenum_from :: "nat \<Rightarrow> bool \<Rightarrow> string \<Rightarrow> bool \<times> string" where
  "parsenum_from n seen [] = (seen, [])"
| "parsenum_from n seen (c # s) =
     (if is_digit c
      then if n > 1000000 then (False, [])
           else parsenum_from (n * 10 + (of_char c - 48)) True s
      else (seen, c # s))"

definition parsenum :: "string \<Rightarrow> bool \<times> string" where
  "parsenum s = parsenum_from 0 False s"

text \<open>\<open>argNumber\<close>: is the index still good, is a well-formed index found, and the rest.\<close>

definition argNumber :: "bool \<Rightarrow> string \<Rightarrow> bool \<times> bool \<times> string" where
  "argNumber good s =
     (case s of
        [] \<Rightarrow> (good, False, s)
      | c # s' \<Rightarrow>
          if c \<noteq> CHR ''['' then (good, False, s)
          else if length s < 3 \<or> CHR '']'' \<notin> set s' then (False, False, s')
          else let body = takeWhile (\<lambda>c. c \<noteq> CHR '']'') s'; rest = drop (Suc (length body)) s'
               in (False, parsenum body = (True, []), rest))"

definition rune_len :: "char \<Rightarrow> nat" where
  "rune_len c = (let n = of_char c :: nat
     in if n < 0xC2 then 1 else if n < 0xE0 then 2 else if n < 0xF0 then 3 else if n < 0xF5 then 4 else 1)"

definition is_flag :: "char \<Rightarrow> bool" where
  "is_flag c \<longleftrightarrow> c \<in> set ''#0+- ''"

definition starts :: "char \<Rightarrow> string \<Rightarrow> bool" where
  "starts c s \<longleftrightarrow> s \<noteq> [] \<and> hd s = c"

text \<open>Each stage takes the output so far, the two flags and the rest of the format.\<close>

type_synonym fmt_state = "string \<times> bool \<times> bool \<times> string"

definition width0 :: "fmt_state \<Rightarrow> fmt_state" where
  "width0 = (\<lambda>(out, good, after, s).
     if starts CHR ''*'' s then (out @ ''%!(BADWIDTH)'', good, False, tl s)
     else let (present, t) = parsenum s in (out, good \<and> \<not> (after \<and> present), after, t))"

definition prec0 :: "fmt_state \<Rightarrow> fmt_state" where
  "prec0 = (\<lambda>(out, good, after, s).
     if starts CHR ''.'' s
     then let (good, after, t) = argNumber (good \<and> \<not> after) (tl s)
          in if starts CHR ''*'' t then (out @ ''%!(BADPREC)'', good, False, tl t)
             else (out, good, after, snd (parsenum t))
     else (out, good, after, s))"

definition index0 :: "fmt_state \<Rightarrow> fmt_state" where
  "index0 = (\<lambda>(out, good, after, s).
     if after then (out, good, after, s)
     else let (good, after, t) = argNumber good s in (out, good, after, t))"

definition verb0 :: "fmt_state \<Rightarrow> string \<times> string" where
  "verb0 = (\<lambda>(out, good, after, s).
     if s = [] then (out @ ''%!(NOVERB)'', [])
     else let n = rune_len (hd s); verb = take n s
          in (out @ (if hd s = CHR ''%'' then ''%''
                     else if \<not> good then ''%!'' @ verb @ ''(BADINDEX)''
                     else ''%!'' @ verb @ ''(MISSING)''), drop n s))"

definition directive0 :: "string \<Rightarrow> string \<times> string" where
  "directive0 s =
     verb0 (index0 (prec0 (width0 (index0 ([], True, False, dropWhile is_flag s)))))"

lemma parsenum_from_length: "length (snd (parsenum_from n b s)) \<le> length s"
  by (induction n b s rule: parsenum_from.induct) auto

lemma parsenum_length: "parsenum s = (b, t) \<Longrightarrow> length t \<le> length s"
  using parsenum_from_length [of 0 False s] by (simp add: parsenum_def)

lemma argNumber_length: "argNumber g s = (g', b, t) \<Longrightarrow> length t \<le> length s"
  by (auto simp: argNumber_def Let_def split: list.splits if_splits)

abbreviation fmt_rest :: "fmt_state \<Rightarrow> string" where
  "fmt_rest x \<equiv> snd (snd (snd x))"

lemma index0_length: "length (fmt_rest (index0 x)) \<le> length (fmt_rest x)"
  by (auto simp: index0_def Let_def split: prod.splits dest: argNumber_length)
     (metis argNumber_length prod.collapse)

lemma width0_length: "length (fmt_rest (width0 x)) \<le> length (fmt_rest x)"
  by (auto simp: width0_def split: prod.splits dest: parsenum_length)

lemma prec0_length: "length (fmt_rest (prec0 x)) \<le> length (fmt_rest x)"
proof -
  have "length (snd (parsenum t)) \<le> length t" for t
    by (metis parsenum_length prod.collapse)
  then show ?thesis
    by (auto simp: prec0_def split: prod.splits dest!: argNumber_length
        intro: le_trans diff_le_mono) (meson diff_le_self le_trans)
qed

lemma verb0_length: "length (snd (verb0 x)) \<le> length (fmt_rest x)"
  by (simp add: verb0_def Let_def split: prod.splits)

lemma directive0_length: "length (snd (directive0 s)) \<le> length s"
proof -
  let ?x = "([], True, False, dropWhile is_flag s)"
  have "length (snd (directive0 s)) \<le> length (fmt_rest ?x)"
    unfolding directive0_def
    using verb0_length index0_length prec0_length width0_length by (meson order_trans)
  also have "\<dots> \<le> length s" by (simp add: length_dropWhile_le)
  finally show ?thesis .
qed

function Sprintf0 :: "string \<Rightarrow> string" where
  "Sprintf0 [] = []"
| "Sprintf0 (c # s) =
     (if c \<noteq> CHR ''%'' then c # Sprintf0 s
      else fst (directive0 s) @ Sprintf0 (snd (directive0 s)))"
  by pat_completeness auto
termination
  by (relation "measure length") (auto simp: le_imp_less_Suc directive0_length)

lemma Sprintf0_plain [go_simps]: "CHR ''%'' \<notin> set s \<Longrightarrow> Sprintf0 s = s"
  by (induction s) auto

lemma Sprintf0_percent: "Sprintf0 ''50% off'' = ''50%!o(MISSING)ff''"
  by code_simp

section \<open>Laws of the library functions\<close>

lemma TrimSuffix_append [simp]: "TrimSuffix (s @ p) p = s"
  by (simp add: TrimSuffix_def suffix_def)

lemma TrimSuffix_other: "\<not> HasSuffix s p \<Longrightarrow> TrimSuffix s p = s"
  by (simp add: TrimSuffix_def)

lemma TrimSuffix_cases: "TrimSuffix s p = s \<or> s = TrimSuffix s p @ p"
  by (auto simp: TrimSuffix_def suffix_def)

lemma TrimPrefix_append [simp]: "TrimPrefix (p @ s) p = s"
  by (simp add: TrimPrefix_def)

lemma Split_nonempty [simp]: "Split s c \<noteq> []"
  by (cases s) (auto split: list.splits)

lemma Split_no_sep: "w \<in> set (Split s c) \<Longrightarrow> c \<notin> set w"
  by (induction s c arbitrary: w rule: Split.induct) (auto split: list.splits if_splits)

lemma Split_plain: "c \<notin> set w \<Longrightarrow> Split w c = [w]"
  by (induction w) auto

lemma Split_append: "c \<notin> set w \<Longrightarrow> Split (w @ c # s) c = w # Split s c"
  by (induction w) (auto split: list.splits)

lemma Split_Join:
  assumes "xs \<noteq> []" and "\<And>w. w \<in> set xs \<Longrightarrow> c \<notin> set w"
  shows "Split (Join xs [c]) c = xs"
  using assms
  by (induction xs "[c]" rule: Join.induct) (auto simp: Split_plain Split_append)

lemma Join_Split: "Join (Split s c) [c] = s"
proof (induction s)
  case (Cons x s)
  then show ?case by (cases "Split s c"; cases "tl (Split s c)") auto
qed simp

lemma trim_left_done: "(\<And>w. w \<in> set ws \<Longrightarrow> w \<noteq> [] \<Longrightarrow> \<not> prefix w s) \<Longrightarrow> trim_left ws s = s"
  by (subst trim_left.simps) (auto split: option.splits simp: find_Some_iff) 

lemma trim_left_suffix: "suffix (trim_left ws s) s"
proof (induction ws s rule: trim_left.induct)
  case (1 ws s)
  show ?case
  proof (cases "find (\<lambda>w. w \<noteq> [] \<and> HasPrefix s w) ws")
    case None
    then show ?thesis by (subst trim_left.simps) simp
  next
    case (Some w)
    from "1" [OF Some] have "suffix (trim_left ws (drop (length w) s)) s"
      by (meson suffix_drop suffix_order.trans)
    with Some show ?thesis by (subst trim_left.simps) simp
  qed
qed

lemma trim_left_clean: "w \<in> set ws \<Longrightarrow> w \<noteq> [] \<Longrightarrow> \<not> prefix w (trim_left ws s)"
proof (induction ws s rule: trim_left.induct)
  case (1 ws s)
  show ?case
  proof (cases "find (\<lambda>w. w \<noteq> [] \<and> HasPrefix s w) ws")
    case None
    then have "trim_left ws s = s" by (subst trim_left.simps) simp
    with None "1.prems" show ?thesis by (auto simp: find_None_iff)
  next
    case (Some v)
    with "1.IH" [OF Some] "1.prems" show ?thesis by (subst trim_left.simps) simp
  qed
qed

text \<open>A trimmed string neither starts nor ends with white space.\<close>

lemma TrimSpace_no_suffix: "w \<in> set white_space \<Longrightarrow> \<not> suffix w (TrimSpace s)"
proof
  assume w: "w \<in> set white_space" and "suffix w (TrimSpace s)"
  then have "prefix (rev w) (trim_left (map rev white_space) (rev (trim_left white_space s)))"
    by (simp add: TrimSpace_def suffix_to_prefix)
  moreover have "rev w \<in> set (map rev white_space)" "rev w \<noteq> []"
    using w white_space_nonempty by auto
  ultimately show False using trim_left_clean by blast
qed

lemma TrimSpace_no_prefix: "w \<in> set white_space \<Longrightarrow> \<not> prefix w (TrimSpace s)"
proof
  assume w: "w \<in> set white_space" and p: "prefix w (TrimSpace s)"
  have "prefix (TrimSpace s) (trim_left white_space s)"
    using trim_left_suffix [of "map rev white_space" "rev (trim_left white_space s)"]
    by (simp add: TrimSpace_def suffix_to_prefix)
  with p have "prefix w (trim_left white_space s)" by (rule prefix_order.trans)
  then show False using w white_space_nonempty trim_left_clean by blast
qed

lemma TrimSpace_fixed:
  "(\<And>w. w \<in> set white_space \<Longrightarrow> \<not> prefix w s \<and> \<not> suffix w s) \<Longrightarrow> TrimSpace s = s"
proof -
  assume clean: "\<And>w. w \<in> set white_space \<Longrightarrow> \<not> prefix w s \<and> \<not> suffix w s"
  then have "trim_left white_space s = s" by (intro trim_left_done) blast
  moreover have "trim_left (map rev white_space) (rev s) = rev s"
    by (rule trim_left_done) (use clean in \<open>auto simp: suffix_to_prefix\<close>)
  ultimately show ?thesis by (simp add: TrimSpace_def)
qed

lemma TrimSpace_idem: "TrimSpace (TrimSpace s) = TrimSpace s"
  by (rule TrimSpace_fixed) (simp add: TrimSpace_no_prefix TrimSpace_no_suffix)

lemma lower_not_upper: "\<not> is_upper (lower c)"
  by (auto simp: is_upper_def lower_def)

lemma lower_id: "\<not> is_upper c \<Longrightarrow> lower c = c"
  by (auto simp: is_upper_def lower_def)

lemma ToLower_not_upper: "c \<in> set (ToLower s) \<Longrightarrow> \<not> is_upper c"
  by (auto simp: ToLower_def lower_not_upper)

lemma ToLower_id: "(\<And>c. c \<in> set s \<Longrightarrow> \<not> is_upper c) \<Longrightarrow> ToLower s = s"
  by (simp add: ToLower_def lower_id map_idI)

lemma ToLower_idem [simp]: "ToLower (ToLower s) = ToLower s"
  by (rule ToLower_id) (rule ToLower_not_upper)

lemma itoa_nat_nonempty [simp]: "itoa_nat n \<noteq> []"
  by (subst itoa_nat.simps) simp

lemma is_digit_itoa: "c \<in> set (itoa_nat n) \<Longrightarrow> is_digit c"
proof (induction n rule: itoa_nat.induct)
  case (1 n)
  show ?case
  proof (cases "n < 10")
    case True
    with "1.prems" show ?thesis by (simp add: itoa_nat.simps [of n] is_digit_def)
  next
    case False
    with "1.prems" "1.IH" show ?thesis
      by (auto simp: itoa_nat.simps [of n] is_digit_def)
  qed
qed

end
