(* ===== verification/Util.thy ===== *)
theory Util
  imports GoStrings
begin

text \<open>
  The helpers of \<^verbatim>\<open>util.go\<close> and \<open>stripDocker\<close> of \<^verbatim>\<open>docker.go\<close>.
  \<open>splitStringArr\<close> (also copied into \<^verbatim>\<open>bin/traefik-kop/main.go\<close>) turns a comma separated
  setting into a list; \<open>stripDocker\<close> removes the provider suffix from a service or router name.
\<close>

definition splitStringArr :: "string \<Rightarrow> string list" where
  "splitStringArr str =
     (let trimmed = TrimSpace str
      in if trimmed \<noteq> [] then map TrimSpace (Split trimmed CHR '','') else [])"

definition stripDocker :: "string \<Rightarrow> string" where
  "stripDocker svcName = TrimSuffix svcName ''@docker''"

lemma stripDocker_append [simp]: "stripDocker (s @ ''@docker'') = s"
  by (simp add: stripDocker_def del: append.simps)

lemma stripDocker_other: "\<not> HasSuffix s ''@docker'' \<Longrightarrow> stripDocker s = s"
  by (simp add: stripDocker_def TrimSuffix_other)

lemma stripDocker_Nil [simp]: "stripDocker [] = []"
  by (simp add: stripDocker_def TrimSuffix_def)

lemma stripDocker_inj_on_qualified:
  "HasSuffix s ''@docker'' \<Longrightarrow> HasSuffix t ''@docker'' \<Longrightarrow> stripDocker s = stripDocker t \<Longrightarrow> s = t"
  by (auto simp: suffix_def simp del: append.simps)

lemma set_stripDocker: "set (stripDocker s) \<subseteq> set s"
  by (auto simp: stripDocker_def TrimSuffix_def dest: in_set_takeD)

lemma splitStringArr_Nil_iff: "splitStringArr s = [] \<longleftrightarrow> TrimSpace s = []"
  by (simp add: splitStringArr_def Let_def)

lemma splitStringArr_no_comma: "w \<in> set (splitStringArr s) \<Longrightarrow> CHR '','' \<notin> set w"
proof -
  have sub: "set (TrimSpace v) \<subseteq> set v" for v
  proof -
    have "set (TrimSpace v) \<subseteq> set (trim_left white_space v)"
      using set_mono_suffix [OF trim_left_suffix] by (fastforce simp: TrimSpace_def)
    also have "\<dots> \<subseteq> set v" by (rule set_mono_suffix) (rule trim_left_suffix)
    finally show ?thesis .
  qed
  assume "w \<in> set (splitStringArr s)"
  then obtain v where "v \<in> set (Split (TrimSpace s) CHR '','')" "w = TrimSpace v"
    by (auto simp: splitStringArr_def Let_def split: if_splits)
  with Split_no_sep sub show ?thesis by blast
qed

text \<open>A list of clean, comma-free words survives printing with commas and splitting again.\<close>

definition clean_word :: "string \<Rightarrow> bool" where
  "clean_word w \<longleftrightarrow> w \<noteq> [] \<and> CHR '','' \<notin> set w \<and> TrimSpace w = w"

lemma no_space_ends:
  assumes "TrimSpace w = w" and "v \<in> set white_space"
  shows "\<not> prefix v w" and "\<not> suffix v w"
  using assms TrimSpace_no_prefix TrimSpace_no_suffix by metis+

lemma white_space_no_comma: "v \<in> set white_space \<Longrightarrow> CHR '','' \<notin> set v"
proof -
  have "list_all (\<lambda>v. CHR '','' \<notin> set v) white_space" by code_simp
  then show "v \<in> set white_space \<Longrightarrow> ?thesis" by (simp add: list_all_iff)
qed

lemma prefix_before_sep: "prefix v (w @ c # r) \<Longrightarrow> c \<notin> set v \<Longrightarrow> prefix v w"
proof (induction v arbitrary: w)
  case (Cons x v)
  show ?case
  proof (cases w)
    case Nil
    with Cons.prems show ?thesis by simp
  next
    case (Cons y w')
    with Cons.prems Cons.IH [of w'] show ?thesis by simp
  qed
qed simp

lemma suffix_after_sep: "suffix v (r @ c # w) \<Longrightarrow> c \<notin> set v \<Longrightarrow> suffix v w"
  using prefix_before_sep [of "rev v" "rev w" c "rev r"] by (simp add: suffix_to_prefix)

lemma Join_first: "\<exists>r. Join (w # ws) [c] = w \<or> Join (w # ws) [c] = w @ c # r"
  by (cases ws) auto

lemma Join_last: "ws \<noteq> [] \<Longrightarrow> \<exists>r. Join ws [c] = last ws \<or> Join ws [c] = r @ c # last ws"
proof (induction ws)
  case (Cons w ws)
  show ?case
  proof (cases ws)
    case (Cons v vs)
    with Cons.IH obtain r where "Join ws [c] = last ws \<or> Join ws [c] = r @ c # last ws" by auto
    with Cons have "Join (w # ws) [c] = w @ c # last ws
        \<or> Join (w # ws) [c] = (w @ c # r) @ c # last ws"
      by auto
    with Cons show ?thesis by (metis last_ConsR list.distinct(1))
  qed simp
qed simp

lemma TrimSpace_Join:
  assumes "ws \<noteq> []" and "list_all clean_word ws"
  shows "TrimSpace (Join ws '','') = Join ws '',''"
proof (rule TrimSpace_fixed)
  fix v assume v: "v \<in> set white_space"
  note nc = white_space_no_comma [OF v]
  obtain w ws' where ws: "ws = w # ws'" using assms(1) by (cases ws) auto
  with assms(2) have w: "TrimSpace w = w" and l: "TrimSpace (last ws) = last ws"
    using last_in_set [OF assms(1)] by (auto simp: clean_word_def list_all_iff)
  have "\<not> prefix v (Join ws '','')"
    unfolding ws
    using Join_first [of w ws' "CHR '',''"] prefix_before_sep [OF _ nc] no_space_ends(1) [OF w v]
    by metis
  moreover have "\<not> suffix v (Join ws '','')"
    using Join_last [OF assms(1), of "CHR '',''"] suffix_after_sep [OF _ nc] no_space_ends(2) [OF l v]
    by metis
  ultimately show "\<not> prefix v (Join ws '','') \<and> \<not> suffix v (Join ws '','')" by simp
qed

lemma splitStringArr_of_Join:
  assumes "ws \<noteq> []" and "list_all clean_word ws"
  shows "splitStringArr (Join ws '','') = ws"
proof -
  have sp: "Split (Join ws '','') CHR '','' = ws"
    using assms by (intro Split_Join) (auto simp: clean_word_def list_all_iff)
  then have "Join ws '','' \<noteq> []"
    using assms by (cases ws) (auto simp: clean_word_def)
  then show ?thesis
    using assms sp TrimSpace_Join [OF assms]
    by (simp add: splitStringArr_def Let_def list_all_iff clean_word_def map_idI)
qed

end
