(* ===== verification/Docker.thy ===== *)
theory Docker
  imports Util
begin

text \<open>
  The docker side of traefik-kop, \<^verbatim>\<open>docker.go\<close>: the container cache that maps traefik services
  to containers, and the port bindings of a container.

  The Docker API client is a third-party package: it is the record \<open>docker_client\<close> of functions
  that the cache calls, an argument of the model. Everything the run-time environment decides is
  read from a \<open>world\<close>: the clock, the seed of the next map iteration, and (through the client)
  the answers of the daemon; each interaction happens at its own tick, so the daemon and the
  clock may answer differently every time. A run-time panic (a nil pointer) is \<open>None\<close>.
  Times are nanoseconds since Go's zero time.

  The main lemmas: a world whose cache is loaded and in date, or is empty in front of a daemon that
  answers steadily, is \<open>settled\<close>; every lookup keeps it settled, and there a lookup answers from the
  same containers alone.
\<close>

section \<open>Docker's data\<close>

record port_binding =
  HostPort :: string

type_synonym port_map = "(string, port_binding list) gomap"

record endpoint_settings =
  IPAddress :: string

record network_settings =
  Ports :: port_map
  Networks :: "(string, endpoint_settings option) gomap"

record host_config =
  PortBindings :: port_map

record container_base =
  ctr_ID :: string
  ctr_Name :: string
  ctr_HostConfig :: "host_config option"

record container_config =
  Labels :: labels

record inspect_response =
  Base :: "container_base option"
  Config :: "container_config option"
  NetworkSettings :: "network_settings option"

record summary =
  sum_ID :: string
  sum_Labels :: labels

record docker_client =
  ContainerList :: "nat \<Rightarrow> summary list option \<times> string option"
  ContainerInspect :: "nat \<Rightarrow> string \<Rightarrow> string + inspect_response"

record dockerCache =
  dc_client :: docker_client
  dc_list :: "summary list option"
  dc_details :: "(string, inspect_response) gomap"
  dc_expires :: int

section \<open>The run-time environment\<close>

record world =
  w_now :: "nat \<Rightarrow> int"
  w_seed :: "nat \<Rightarrow> nat"
  w_tick :: nat
  w_cache :: dockerCache

definition time_now :: "world \<Rightarrow> int \<times> world" where
  "time_now w = (w_now w (w_tick w), w\<lparr>w_tick := Suc (w_tick w)\<rparr>)"

definition next_seed :: "world \<Rightarrow> nat \<times> world" where
  "next_seed w = (w_seed w (w_tick w), w\<lparr>w_tick := Suc (w_tick w)\<rparr>)"

definition list_containers :: "world \<Rightarrow> (summary list option \<times> string option) \<times> world" where
  "list_containers w =
     (ContainerList (dc_client (w_cache w)) (w_tick w), w\<lparr>w_tick := Suc (w_tick w)\<rparr>)"

definition inspect_container :: "string \<Rightarrow> world \<Rightarrow> (string + inspect_response) \<times> world" where
  "inspect_container i w =
     (ContainerInspect (dc_client (w_cache w)) (w_tick w) i, w\<lparr>w_tick := Suc (w_tick w)\<rparr>)"

definition second :: int where
  "second = 1000000000"

section \<open>The container cache\<close>

text \<open>
  The loop that lower-cases the keys of a label map. It visits the entries in the order of the
  seed; where two keys differ in case only, the entry visited last wins. (The keys of the
  resulting association list keep the order of the original ones.)
\<close>

definition normalizeLabels :: "nat \<Rightarrow> labels \<Rightarrow> labels" where
  "normalizeLabels seed m =
     (let visited = map (\<lambda>(k, v). (ToLower k, v)) (permute seed m)
      in map (\<lambda>k. (k, get_str (rev visited) k)) (remdups (map (ToLower \<circ> fst) m)))"

definition set_labels :: "labels \<Rightarrow> inspect_response \<Rightarrow> inspect_response option" where
  "set_labels l c = (case Config c of None \<Rightarrow> None | Some cfg \<Rightarrow> Some (c\<lparr>Config := Some (cfg\<lparr>Labels := l\<rparr>)\<rparr>))"

text \<open>The body of the loop of \<open>populate\<close> for one listed container.\<close>

definition set_details :: "(string, inspect_response) gomap \<Rightarrow> world \<Rightarrow> world" where
  "set_details d w = w\<lparr>w_cache := (w_cache w)\<lparr>dc_details := d\<rparr>\<rparr>"

definition populate_one :: "summary \<Rightarrow> world \<Rightarrow> (string option \<times> world) option" where
  "populate_one c w =
     (let (r, w) =
        (case map_of (dc_details (w_cache w)) (sum_ID c) of
           Some i \<Rightarrow> (Inr i, w)
         | None \<Rightarrow> inspect_container (sum_ID c) w)
      in case r of
           Inl e \<Rightarrow> Some (Some (''failed to inspect container '' @ sum_ID c @ '': '' @ e), w)
         | Inr i \<Rightarrow> do {
             cfg \<leftarrow> Config i;
             let (seed, w) = next_seed w;
             i' \<leftarrow> set_labels (normalizeLabels seed (Labels cfg)) i;
             Some (None, set_details (AList.update (sum_ID c) i' (dc_details (w_cache w))) w)
           })"

fun populate_all :: "summary list \<Rightarrow> world \<Rightarrow> (string option \<times> world) option" where
  "populate_all [] w = Some (None, w)"
| "populate_all (c # cs) w = do {
     (err, w) \<leftarrow> populate_one c w;
     if err \<noteq> None then Some (err, w) else populate_all cs w
   }"

definition cache_ttl :: int where
  "cache_ttl = 5 * second"

definition expire_cache :: "world \<Rightarrow> world" where
  "expire_cache w =
     (let (now, w) = time_now w
      in if now > dc_expires (w_cache w)
         then w\<lparr>w_cache := (w_cache w)\<lparr>dc_list := None, dc_details := []\<rparr>\<rparr> else w)"

definition fetch_list :: "world \<Rightarrow> string option \<times> world" where
  "fetch_list w =
     (if dc_list (w_cache w) = None
      then let ((l, e), w) = list_containers w
           in (e, w\<lparr>w_cache := (w_cache w)\<lparr>dc_list := l\<rparr>\<rparr>)
      else (None, w))"

definition renew_cache :: "world \<Rightarrow> world" where
  "renew_cache w =
     (let (now, w) = time_now w
      in w\<lparr>w_cache := (w_cache w)\<lparr>dc_expires := now + cache_ttl\<rparr>\<rparr>)"

text \<open>\<open>Some (None, w)\<close> is success, \<open>Some (Some e, w)\<close> an error.\<close>

definition populate :: "world \<Rightarrow> (string option \<times> world) option" where
  "populate w =
     (let w = expire_cache w; (err, w) = fetch_list w
      in case err of
           Some e \<Rightarrow> Some (Some (''failed to list containers: '' @ e), w)
         | None \<Rightarrow> do {
             (err, w) \<leftarrow> populate_all (case dc_list (w_cache w) of None \<Rightarrow> [] | Some l \<Rightarrow> l) w;
             if err \<noteq> None then Some (err, w) else Some (None, renew_cache w)
           })"

definition svcNeedle :: "string \<Rightarrow> string \<Rightarrow> string" where
  "svcNeedle svcType svcName = ''traefik.'' @ svcType @ ''.services.'' @ svcName @ ''.''"

definition routerNeedle :: "string \<Rightarrow> string \<Rightarrow> string" where
  "routerNeedle svcType routerName = ''traefik.'' @ svcType @ ''.routers.'' @ routerName @ ''.''"

definition label_matches :: "string \<Rightarrow> string \<Rightarrow> string \<Rightarrow> string \<Rightarrow> bool" where
  "label_matches svcType svcName routerName k \<longleftrightarrow>
     HasPrefix k (svcNeedle svcType svcName) \<or>
     (routerName \<noteq> [] \<and> HasPrefix k (routerNeedle svcType routerName))"

fun find_labelled :: "(string \<Rightarrow> bool) \<Rightarrow> (string, inspect_response) gomap
    \<Rightarrow> inspect_response option option" where
  "find_labelled P [] = Some None"
| "find_labelled P ((_, c) # cs) = do {
     cfg \<leftarrow> Config c;
     if list_ex P (keys_of (Labels cfg)) then do { _ \<leftarrow> Base c; Some (Some c) }
     else find_labelled P cs
   }"

definition findContainerByServiceName
  :: "string \<Rightarrow> string \<Rightarrow> string \<Rightarrow> world \<Rightarrow> ((string + inspect_response) \<times> world) option" where
  "findContainerByServiceName svcType svcName routerName w = do {
     (err, w) \<leftarrow> populate w;
     case err of
       Some e \<Rightarrow> Some (Inl e, w)
     | None \<Rightarrow> do {
         let svcName = stripDocker svcName;
         let routerName = stripDocker routerName;
         let (seed, w) = next_seed w;
         r \<leftarrow> find_labelled (label_matches svcType svcName routerName)
                (permute seed (dc_details (w_cache w)));
         case r of
           Some c \<Rightarrow> Some (Inr c, w)
         | None \<Rightarrow> Some (Inl (''service label not found for '' @ svcType @ ''/'' @ svcName), w)
       }
   }"

section \<open>Ports\<close>

definition isPortSet :: "inspect_response \<Rightarrow> string \<Rightarrow> string \<Rightarrow> string option" where
  "isPortSet c svcType svcName = do {
     cfg \<leftarrow> Config c;
     Some (get_str (Labels cfg)
       (''traefik.'' @ svcType @ ''.services.'' @ stripDocker svcName @ ''.loadbalancer.server.port''))
   }"

definition usable_port :: "port_binding \<Rightarrow> bool" where
  "usable_port b \<longleftrightarrow> HostPort b \<noteq> [] \<and> HostPort b \<noteq> ''0''"

definition bindings_at :: "port_map \<Rightarrow> string \<Rightarrow> port_binding list" where
  "bindings_at m k = (case map_of m k of None \<Rightarrow> [] | Some v \<Rightarrow> v)"

definition getServicePortBinding :: "inspect_response \<Rightarrow> string \<Rightarrow> string \<Rightarrow> string option" where
  "getServicePortBinding c svcType port = do {
     let protocol = (if svcType = ''udp'' then ''udp'' else ''tcp'');
     let key = port @ ''/'' @ protocol;
     let maps1 = (case NetworkSettings c of None \<Rightarrow> [] | Some n \<Rightarrow> [Ports n]);
     base \<leftarrow> Base c;
     let maps = maps1 @ (case ctr_HostConfig base of None \<Rightarrow> [] | Some h \<Rightarrow> [PortBindings h]);
     Some (case find usable_port (concat (map (\<lambda>m. bindings_at m key) maps)) of
             Some b \<Rightarrow> HostPort b | None \<Rightarrow> [])
   }"

datatype port_error = MoreThanOneBinding string | NoBinding string

text \<open>
  With at most one bound port, the loops over the maps run at most once: the entry they see is
  the head of the association list.
\<close>

definition getPortBinding :: "inspect_response \<Rightarrow> (port_error + string) option" where
  "getPortBinding c = do {
     base \<leftarrow> Base c;
     h \<leftarrow> ctr_HostConfig base;
     let name = ctr_Name base;
     let bindings = PortBindings h;
     let v = (if bindings = [] then [] else snd (hd bindings));
     Some
       (if length bindings > 1 then Inl (MoreThanOneBinding name)
        else if length v > 1 then Inl (MoreThanOneBinding name)
        else if v \<noteq> [] \<and> usable_port (hd v) then Inr (HostPort (hd v))
        else
          (case NetworkSettings c of
             None \<Rightarrow> Inl (NoBinding name)
           | Some n \<Rightarrow>
               if length (Ports n) = 1 \<and> snd (hd (Ports n)) \<noteq> []
                  \<and> HostPort (hd (snd (hd (Ports n)))) \<noteq> []
               then Inr (HostPort (hd (snd (hd (Ports n)))))
               else Inl (NoBinding name)))
   }"

text \<open>The printed form of the bindings, for a visiting order of the map.\<close>

definition portBindingString :: "port_map \<Rightarrow> string" where
  "portBindingString bindings =
     Join (map (\<lambda>(k, v). HostPort (hd v) @ '':'' @ TrimSuffix (TrimSuffix k ''/tcp'') ''/udp'')
             (filter (\<lambda>(k, v). v \<noteq> []) bindings)) '', ''"

section \<open>Normalised labels\<close>

definition normal_labels :: "labels \<Rightarrow> bool" where
  "normal_labels l \<longleftrightarrow> wf_map l \<and> list_all (\<lambda>k. ToLower k = k) (keys_of l)"

lemma keys_normalizeLabels:
  "keys_of (normalizeLabels seed m) = remdups (map (ToLower \<circ> fst) m)"
  by (simp add: normalizeLabels_def Let_def comp_def)

lemma normal_normalizeLabels: "normal_labels (normalizeLabels seed m)"
  unfolding normal_labels_def wf_map_def keys_normalizeLabels by (auto simp: list_all_iff)

lemma normalizeLabels_value:
  assumes "map_of (normalizeLabels seed m) k = Some v"
  shows "\<exists>k'. ToLower k' = k \<and> (k', v) \<in> set m"
proof -
  let ?vis = "map (\<lambda>(k, v). (ToLower k, v)) (permute seed m)"
  from assms have k: "k \<in> set (map (ToLower \<circ> fst) m)"
    by (metis domI dom_map_of_conv_image_fst keys_normalizeLabels set_map set_remdups)
  moreover have "map_of (normalizeLabels seed m) k = Some (get_str (rev ?vis) k)"
    using k by (auto simp: normalizeLabels_def Let_def map_of_eq_Some_iff comp_def)
  ultimately have v: "v = get_str (rev ?vis) k" using assms by simp
  from k have "k \<in> set (keys_of (rev ?vis))" by (force simp: rev_map)
  then obtain v' where v': "map_of (rev ?vis) k = Some v'"
    by (metis map_of_eq_None_iff not_Some_eq set_map)
  with v have "v' = v" by (simp add: get_str_def)
  with map_of_SomeD [OF v'] show ?thesis by auto
qed

lemma normalizeLabels_id:
  assumes "normal_labels m"
  shows "normalizeLabels seed m = m"
proof -
  have low: "ToLower k = k" if "(k, v) \<in> set m" for k v
    using assms that by (force simp: normal_labels_def list_all_iff)
  have vis: "map (\<lambda>(k, v). (ToLower k, v)) (permute seed m) = permute seed m"
    by (rule map_idI) (auto simp: low)
  have ks: "remdups (map (ToLower \<circ> fst) m) = keys_of m"
  proof -
    have "map (ToLower \<circ> fst) m = keys_of m" by (auto simp: low)
    moreover have "distinct (keys_of m)" using assms by (simp add: normal_labels_def wf_map_def)
    ultimately show ?thesis by (simp only: distinct_remdups_id)
  qed
  have wf: "wf_map m" using assms by (simp add: normal_labels_def)
  then have "map_of (rev (permute seed m)) = map_of m"
    unfolding wf_map_def by (intro map_of_inject_set [THEN iffD2]) (simp_all add: rev_map [symmetric])
  then have "get_str (rev (permute seed m)) (fst e) = snd e" if "e \<in> set m" for e
    using wf_map_lookup [OF wf, of "fst e" "snd e"] that by (simp add: get_str_def)
  then show ?thesis
    unfolding normalizeLabels_def Let_def vis ks by (simp add: comp_def map_idI)
qed

definition container_labels :: "inspect_response \<Rightarrow> labels" where
  "container_labels c = (case Config c of None \<Rightarrow> [] | Some cfg \<Rightarrow> Labels cfg)"

definition labels_normal :: "inspect_response \<Rightarrow> bool" where
  "labels_normal c \<longleftrightarrow> Config c \<noteq> None \<and> normal_labels (container_labels c)"

definition normal_container :: "inspect_response \<Rightarrow> bool" where
  "normal_container c \<longleftrightarrow> Base c \<noteq> None \<and> labels_normal c"

definition labelled :: "(string \<Rightarrow> bool) \<Rightarrow> inspect_response \<Rightarrow> bool" where
  "labelled P c \<longleftrightarrow> list_ex P (keys_of (container_labels c))"

lemma set_labels_id: "Config c = Some cfg \<Longrightarrow> set_labels (Labels cfg) c = Some c"
  by (simp add: set_labels_def)

lemma set_labels_normal:
  "set_labels (normalizeLabels seed l) c = Some c' \<Longrightarrow> labels_normal c' \<and> Base c' = Base c"
  by (auto simp: set_labels_def labels_normal_def container_labels_def normal_normalizeLabels
      split: option.splits)

section \<open>Invariants of the cache\<close>

definition containers :: "world \<Rightarrow> inspect_response set" where
  "containers w = snd ` set (dc_details (w_cache w))"

definition cache_inv :: "world \<Rightarrow> bool" where
  "cache_inv w \<longleftrightarrow> wf_map (dc_details (w_cache w)) \<and> (\<forall>c \<in> containers w. labels_normal c)"

text \<open>The clock and the seeds are never changed, and ticks only grow.\<close>

definition later :: "world \<Rightarrow> world \<Rightarrow> bool" where
  "later w w' \<longleftrightarrow> w_now w' = w_now w \<and> w_seed w' = w_seed w \<and> w_tick w \<le> w_tick w'
     \<and> dc_client (w_cache w') = dc_client (w_cache w)"

lemma later_refl [simp]: "later w w"
  by (simp add: later_def)

lemma later_trans: "later u v \<Longrightarrow> later v w \<Longrightarrow> later u w"
  by (auto simp: later_def)

lemma set_update_subset: "set (AList.update k v m) \<subseteq> insert (k, v) (set m)"
  by (induction m) auto

lemma populate_one_inv:
  assumes "populate_one c w = Some (e, w')" and "cache_inv w"
  shows "cache_inv w' \<and> later w w'"
proof -
  have upd: "cache_inv (set_details (AList.update k i (dc_details (w_cache u))) u)"
    if "cache_inv u" "labels_normal i" for k i u
    using that set_update_subset [of k i "dc_details (w_cache u)"]
    by (fastforce simp: cache_inv_def containers_def set_details_def)
  show ?thesis
    using assms
    by (auto simp: populate_one_def inspect_container_def next_seed_def Let_def later_def
          cache_inv_def containers_def set_details_def bind_eq_Some_conv
        split: option.splits sum.splits
        dest!: set_labels_normal set_update_subset [THEN subsetD])
qed

lemma populate_all_inv:
  "populate_all cs w = Some (e, w') \<Longrightarrow> cache_inv w \<Longrightarrow> cache_inv w' \<and> later w w'"
proof (induction cs arbitrary: w)
  case (Cons c cs)
  then obtain e1 w1 where 1: "populate_one c w = Some (e1, w1)"
    by (auto simp: bind_eq_Some_conv)
  note i1 = populate_one_inv [OF 1 Cons.prems(2)]
  show ?case
  proof (cases e1)
    case None
    with Cons.prems 1 have "populate_all cs w1 = Some (e, w')" by simp
    with Cons.IH i1 show ?thesis by (blast intro: later_trans)
  next
    case (Some x)
    with Cons.prems 1 i1 show ?thesis by simp
  qed
qed simp

lemma cache_inv_update [simp]:
  "cache_inv (w\<lparr>w_tick := t\<rparr>) = cache_inv w"
  "cache_inv (w\<lparr>w_cache := c\<lparr>dc_expires := x\<rparr>\<rparr>) = cache_inv (w\<lparr>w_cache := c\<rparr>)"
  "cache_inv (w\<lparr>w_cache := c\<lparr>dc_list := l\<rparr>\<rparr>) = cache_inv (w\<lparr>w_cache := c\<rparr>)"
  "cache_inv (w\<lparr>w_cache := c\<lparr>dc_details := []\<rparr>\<rparr>)"
  "cache_inv (w\<lparr>w_tick := t, w_cache := c\<rparr>) = cache_inv (w\<lparr>w_cache := c\<rparr>)"
  by (simp_all add: cache_inv_def containers_def)

lemma expire_cache_inv: "cache_inv w \<Longrightarrow> cache_inv (expire_cache w) \<and> later w (expire_cache w)"
  by (auto simp: expire_cache_def time_now_def later_def Let_def)

lemma fetch_list_inv: "fetch_list w = (e, w') \<Longrightarrow> cache_inv w \<Longrightarrow> cache_inv w' \<and> later w w'"
  by (auto simp: fetch_list_def list_containers_def later_def Let_def split: if_splits prod.splits)

lemma renew_cache_inv: "cache_inv w \<Longrightarrow> cache_inv (renew_cache w) \<and> later w (renew_cache w)"
  by (auto simp: renew_cache_def time_now_def later_def Let_def)

lemma populate_cases:
  assumes "populate w = Some (e, w')"
  obtains (list_error) x where "fetch_list (expire_cache w) = (Some x, w')" and "e \<noteq> None"
  | (inspected) w1 w2 where "fetch_list (expire_cache w) = (None, w1)"
      and "populate_all (case dc_list (w_cache w1) of None \<Rightarrow> [] | Some l \<Rightarrow> l) w1 = Some (e, w2)"
      and "w' = (if e = None then renew_cache w2 else w2)"
  using assms
  by (auto simp: populate_def Let_def bind_eq_Some_conv split: prod.splits option.splits if_splits)

lemma populate_inv:
  assumes "populate w = Some (e, w')" and "cache_inv w"
  shows "cache_inv w' \<and> later w w'"
  using assms(1)
proof (cases rule: populate_cases)
  case (list_error x)
  with expire_cache_inv [OF assms(2)] fetch_list_inv show ?thesis by (blast intro: later_trans)
next
  case (inspected w1 w2)
  from expire_cache_inv [OF assms(2)] fetch_list_inv [OF inspected(1)]
  have 1: "cache_inv w1" "later w w1" by (auto intro: later_trans)
  with populate_all_inv [OF inspected(2)] have 2: "cache_inv w2" "later w w2"
    by (auto intro: later_trans)
  with renew_cache_inv [OF 2(1)] inspected(3) show ?thesis by (auto intro: later_trans)
qed

section \<open>Looking a container up\<close>

lemma find_labelled_Some:
  "find_labelled P cs = Some r \<Longrightarrow>
     (case r of
        None \<Rightarrow> \<forall>c \<in> snd ` set cs. \<not> labelled P c
      | Some c \<Rightarrow> c \<in> snd ` set cs \<and> labelled P c)"
proof (induction cs)
  case (Cons x cs)
  obtain i c where x: "x = (i, c)" by (cases x)
  from Cons.prems x obtain cfg where cfg: "Config c = Some cfg" by (auto simp: bind_eq_Some_conv)
  then have l: "labelled P c = list_ex P (keys_of (Labels cfg))"
    by (simp add: labelled_def container_labels_def)
  show ?case
  proof (cases "labelled P c")
    case True
    with Cons.prems x cfg l have "r = Some c" by (auto simp: bind_eq_Some_conv)
    with True x show ?thesis by simp
  next
    case False
    with Cons.prems x cfg l have "find_labelled P cs = Some r" by simp
    with Cons.IH False x show ?thesis by (auto split: option.splits)
  qed
qed simp

lemma find_labelled_total:
  "list_all (\<lambda>(_, c). normal_container c) cs \<Longrightarrow> \<exists>r. find_labelled P cs = Some r"
  by (induction P cs rule: find_labelled.induct)
     (auto simp: normal_container_def labels_normal_def)

text \<open>The right answer of a lookup of \<open>P\<close> among the containers \<open>C\<close>.\<close>

definition answers :: "(string \<Rightarrow> bool) \<Rightarrow> inspect_response set \<Rightarrow> string + inspect_response \<Rightarrow> bool" where
  "answers P C r =
     (case r of Inl _ \<Rightarrow> \<forall>c \<in> C. \<not> labelled P c | Inr c \<Rightarrow> c \<in> C \<and> labelled P c)"

lemma answers_simps [simp]:
  "answers P C (Inl e) \<longleftrightarrow> (\<forall>c \<in> C. \<not> labelled P c)"
  "answers P C (Inr c) \<longleftrightarrow> c \<in> C \<and> labelled P c"
  by (simp_all add: answers_def)

lemma answers_InlD: "answers P C (Inl e) \<Longrightarrow> c \<in> C \<Longrightarrow> labelled P c \<Longrightarrow> False"
  by (simp add: answers_def)

lemma answers_InrD: "answers P C (Inr c) \<Longrightarrow> c \<in> C" "answers P C (Inr c) \<Longrightarrow> labelled P c"
  by (simp_all add: answers_def)

lemma next_seed_later: "next_seed w = (s, w') \<Longrightarrow> later w w' \<and> w_cache w' = w_cache w"
  by (auto simp: next_seed_def later_def)

abbreviation service_matches :: "string \<Rightarrow> string \<Rightarrow> string \<Rightarrow> string \<Rightarrow> bool" where
  "service_matches svcType svcName routerName \<equiv>
     label_matches svcType (stripDocker svcName) (stripDocker routerName)"

lemma find_cases:
  assumes "findContainerByServiceName svcType svcName routerName w = Some (r, w')"
  obtains (failed) e where "populate w = Some (Some e, w')" and "r = Inl e"
  | (searched) w1 where "populate w = Some (None, w1)" and "later w1 w'" and "w_cache w' = w_cache w1"
      and "answers (service_matches svcType svcName routerName) (containers w') r"
proof -
  from assms obtain e w1 where p: "populate w = Some (e, w1)"
    by (auto simp: findContainerByServiceName_def bind_eq_Some_conv)
  show ?thesis
  proof (cases e)
    case (Some x)
    with assms p have "r = Inl x" "w' = w1" by (auto simp: findContainerByServiceName_def)
    with p Some failed show ?thesis by simp
  next
    case None
    obtain seed w2 where s: "next_seed w1 = (seed, w2)" by (cases "next_seed w1")
    note l = next_seed_later [OF s]
    from assms p None s obtain q where
      q: "find_labelled (service_matches svcType svcName routerName)
            (permute seed (dc_details (w_cache w2))) = Some q"
      and r: "case q of None \<Rightarrow> (\<exists>x. r = Inl x) \<and> w' = w2 | Some c \<Rightarrow> r = Inr c \<and> w' = w2"
      by (auto simp: findContainerByServiceName_def Let_def bind_eq_Some_conv split: option.splits)
    from find_labelled_Some [OF q] r l p None show ?thesis
      by (intro searched [of w1]) (auto simp: containers_def split: option.splits)
  qed
qed

lemma find_inv:
  assumes "findContainerByServiceName svcType svcName routerName w = Some (r, w')" and "cache_inv w"
  shows "cache_inv w' \<and> later w w'"
  using assms(1)
proof (cases rule: find_cases)
  case (failed e)
  with populate_inv [OF _ assms(2)] show ?thesis by simp
next
  case (searched w1)
  from populate_inv [OF searched(1) assms(2)] have "cache_inv w1" "later w w1" by auto
  with searched(2,3) show ?thesis by (auto simp: cache_inv_def containers_def intro: later_trans)
qed

section \<open>Loaded caches\<close>

text \<open>
  In a \<open>brisk\<close> world the rest of the run takes at most the life time of the cache; in a
  \<open>loaded\<close> one the cache holds the containers \<open>D\<close> and stays in date.
\<close>

definition brisk :: "world \<Rightarrow> bool" where
  "brisk w \<longleftrightarrow> (\<forall>t t'. w_tick w \<le> t \<and> w_tick w \<le> t' \<longrightarrow> w_now w t' \<le> w_now w t + cache_ttl)"

definition loaded :: "(string, inspect_response) gomap \<Rightarrow> world \<Rightarrow> bool" where
  "loaded D w \<longleftrightarrow> dc_details (w_cache w) = D \<and> wf_map D
     \<and> list_all (\<lambda>(_, c). normal_container c) D
     \<and> (\<exists>l. dc_list (w_cache w) = Some l \<and> (\<forall>c \<in> set l. sum_ID c \<in> set (keys_of D)))
     \<and> brisk w \<and> (\<forall>t \<ge> w_tick w. w_now w t \<le> dc_expires (w_cache w))"

lemma brisk_later: "brisk w \<Longrightarrow> later w w' \<Longrightarrow> brisk w'"
  by (auto simp: brisk_def later_def)

lemma loaded_later: "loaded D w \<Longrightarrow> later w w' \<Longrightarrow> w_cache w' = w_cache w \<Longrightarrow> loaded D w'"
  by (auto simp: loaded_def brisk_def later_def)

lemma loaded_normal: "loaded D w \<Longrightarrow> c \<in> snd ` set D \<Longrightarrow> normal_container c"
  by (auto simp: loaded_def list_all_iff)

lemma loaded_cache_inv: "loaded D w \<Longrightarrow> cache_inv w"
  by (auto simp: loaded_def cache_inv_def containers_def list_all_iff normal_container_def)

lemma update_same: "map_of m k = Some v \<Longrightarrow> AList.update k v m = m"
  by (induction m) (auto split: if_splits)

lemma populate_one_loaded:
  assumes "loaded D w" and "sum_ID c \<in> set (keys_of D)"
  shows "\<exists>w'. populate_one c w = Some (None, w') \<and> later w w' \<and> w_cache w' = w_cache w"
proof -
  from assms(2) obtain i where i: "map_of D (sum_ID c) = Some i"
    by (metis map_of_eq_None_iff not_Some_eq set_map)
  with assms(1) have "normal_container i"
    by (auto simp: loaded_def list_all_iff dest!: map_of_SomeD)
  then obtain cfg where cfg: "Config i = Some cfg" "normal_labels (Labels cfg)"
    by (auto simp: normal_container_def labels_normal_def container_labels_def)
  have D: "dc_details (w_cache w) = D" using assms(1) by (simp add: loaded_def)
  show ?thesis
    using i cfg D
    by (simp add: populate_one_def next_seed_def normalizeLabels_id set_labels_id set_details_def
        update_same later_def)
qed

lemma populate_all_loaded:
  "loaded D w \<Longrightarrow> \<forall>c \<in> set cs. sum_ID c \<in> set (keys_of D) \<Longrightarrow>
     \<exists>w'. populate_all cs w = Some (None, w') \<and> later w w' \<and> w_cache w' = w_cache w"
proof (induction cs arbitrary: w)
  case (Cons c cs)
  then obtain w1 where 1: "populate_one c w = Some (None, w1)" "later w w1" "w_cache w1 = w_cache w"
    using populate_one_loaded [OF Cons.prems(1), of c] Cons.prems(2) by auto
  then have "loaded D w1" using Cons.prems(1) loaded_later by blast
  with Cons.IH [of w1] Cons.prems(2) obtain w2 where
    "populate_all cs w1 = Some (None, w2)" "later w1 w2" "w_cache w2 = w_cache w1" by auto
  with 1 show ?case by (auto dest: later_trans)
qed simp

lemma populate_loaded:
  assumes "loaded D w"
  shows "\<exists>w'. populate w = Some (None, w') \<and> loaded D w' \<and> later w w'"
proof -
  obtain l where l: "dc_list (w_cache w) = Some l" "\<forall>c \<in> set l. sum_ID c \<in> set (keys_of D)"
    using assms by (auto simp: loaded_def)
  let ?w1 = "w\<lparr>w_tick := Suc (w_tick w)\<rparr>"
  have "w_now w (w_tick w) \<le> dc_expires (w_cache w)" using assms by (simp add: loaded_def)
  then have 1: "expire_cache w = ?w1" by (simp add: expire_cache_def time_now_def Let_def)
  have lw: "later w ?w1" "w_cache ?w1 = w_cache w" by (simp_all add: later_def)
  with assms have s1: "loaded D ?w1" by (rule loaded_later)
  have 2: "fetch_list ?w1 = (None, ?w1)" using l by (simp add: fetch_list_def)
  from populate_all_loaded [OF s1 l(2)] obtain w2 where
    3: "populate_all l ?w1 = Some (None, w2)" "later ?w1 w2" "w_cache w2 = w_cache ?w1" by blast
  have s2: "loaded D w2" using loaded_later [OF s1 3(2,3)] .
  have "populate w = Some (None, renew_cache w2)"
    using 1 2 3(1) l by (simp add: populate_def Let_def)
  moreover have "later w (renew_cache w2)"
    using lw(1) 3(2) by (auto simp: renew_cache_def time_now_def later_def Let_def)
  moreover have "loaded D (renew_cache w2)"
    using s2 by (auto simp: loaded_def renew_cache_def time_now_def brisk_def Let_def)
  ultimately show ?thesis by blast
qed

text \<open>
  An empty cache in front of a daemon that gives the same answers for the rest of the run:
  \<open>populate\<close> loads the listed containers, with lower-case labels.
\<close>

definition normalizes_to :: "inspect_response \<Rightarrow> inspect_response \<Rightarrow> bool" where
  "normalizes_to c0 c \<longleftrightarrow> (case Config c0 of
     None \<Rightarrow> False | Some cfg \<Rightarrow> \<forall>seed. set_labels (normalizeLabels seed (Labels cfg)) c0 = Some c)"

definition steady :: "docker_client \<Rightarrow> nat \<Rightarrow> (string, inspect_response) gomap \<Rightarrow> bool" where
  "steady cl tick D \<longleftrightarrow>
     (\<exists>l. map sum_ID l = keys_of D \<and> (\<forall>t \<ge> tick. ContainerList cl t = (Some l, None)))
     \<and> (\<forall>(i, c) \<in> set D. \<forall>t \<ge> tick. \<exists>c0. ContainerInspect cl t i = Inr c0 \<and> normalizes_to c0 c)"

definition loadable :: "(string, inspect_response) gomap \<Rightarrow> world \<Rightarrow> bool" where
  "loadable D w \<longleftrightarrow> dc_list (w_cache w) = None \<and> dc_details (w_cache w) = [] \<and> wf_map D
     \<and> list_all (\<lambda>(_, c). normal_container c) D \<and> brisk w \<and> steady (dc_client (w_cache w)) (w_tick w) D"

lemma steady_mono:
  assumes "steady cl t D" and "t \<le> t'"
  shows "steady cl t' D"
proof -
  from assms(1) obtain l where l: "map sum_ID l = keys_of D" "\<forall>u \<ge> t. ContainerList cl u = (Some l, None)"
    by (auto simp: steady_def)
  then have "\<forall>u \<ge> t'. ContainerList cl u = (Some l, None)" using assms(2) by simp
  moreover have "\<forall>u \<ge> t'. \<exists>c0. ContainerInspect cl u i = Inr c0 \<and> normalizes_to c0 c" if "(i, c) \<in> set D" for i c
    using assms that order_trans by (fastforce simp: steady_def)
  ultimately show ?thesis using l(1) by (auto simp: steady_def)
qed

lemma loadable_later: "loadable D w \<Longrightarrow> later w w' \<Longrightarrow> w_cache w' = w_cache w \<Longrightarrow> loadable D w'"
proof -
  assume a: "loadable D w" and l: "later w w'" and c: "w_cache w' = w_cache w"
  have t: "w_tick w \<le> w_tick w'" using l by (simp add: later_def)
  have "steady (dc_client (w_cache w)) (w_tick w) D" using a by (simp add: loadable_def)
  then have "steady (dc_client (w_cache w)) (w_tick w') D" using t by (rule steady_mono)
  with a c brisk_later [OF _ l] show "loadable D w'" by (simp add: loadable_def)
qed

lemma update_new: "k \<notin> set (keys_of m) \<Longrightarrow> AList.update k v m = m @ [(k, v)]"
  by (induction m) auto

lemma populate_one_fresh:
  assumes "sum_ID x \<notin> set (keys_of (dc_details (w_cache w)))"
    and "ContainerInspect (dc_client (w_cache w)) (w_tick w) (sum_ID x) = Inr c0" and "normalizes_to c0 c"
  shows "populate_one x w = Some (None, set_details (dc_details (w_cache w) @ [(sum_ID x, c)])
    (w\<lparr>w_tick := Suc (Suc (w_tick w))\<rparr>))"
proof -
  have "map_of (dc_details (w_cache w)) (sum_ID x) = None" using assms(1) by (simp add: map_of_eq_None_iff)
  moreover obtain cfg where "Config c0 = Some cfg" "\<forall>seed. set_labels (normalizeLabels seed (Labels cfg)) c0 = Some c"
    using assms(3) by (auto simp: normalizes_to_def split: option.splits)
  ultimately show ?thesis
    using assms(1,2) by (simp add: populate_one_def inspect_container_def next_seed_def update_new)
qed

lemma populate_all_fresh:
  assumes "wf_map (dc_details (w_cache w) @ D)" and "map sum_ID l = keys_of D"
    and "\<forall>(i, c) \<in> set D. \<forall>t \<ge> w_tick w. \<exists>c0. ContainerInspect (dc_client (w_cache w)) t i = Inr c0 \<and> normalizes_to c0 c"
  shows "\<exists>n \<ge> w_tick w. populate_all l w = Some (None, set_details (dc_details (w_cache w) @ D) (w\<lparr>w_tick := n\<rparr>))"
  using assms
proof (induction l arbitrary: w D)
  case Nil
  then show ?case by (intro exI [of _ "w_tick w"]) (simp add: set_details_def)
next
  case (Cons x l)
  then obtain c E where D: "D = (sum_ID x, c) # E" "map sum_ID l = keys_of E" by (cases D) auto
  obtain c0 where c0: "ContainerInspect (dc_client (w_cache w)) (w_tick w) (sum_ID x) = Inr c0" "normalizes_to c0 c"
    using Cons.prems(3) D(1) by auto
  have "sum_ID x \<notin> set (keys_of (dc_details (w_cache w)))" using Cons.prems(1) D(1) by (auto simp: wf_map_def)
  note 1 = populate_one_fresh [OF this c0]
  let ?w = "set_details (dc_details (w_cache w) @ [(sum_ID x, c)]) (w\<lparr>w_tick := Suc (Suc (w_tick w))\<rparr>)"
  have "\<exists>n \<ge> w_tick ?w. populate_all l ?w = Some (None, set_details (dc_details (w_cache ?w) @ E) (?w\<lparr>w_tick := n\<rparr>))"
    using Cons.prems(1,3) D by (intro Cons.IH) (auto simp: set_details_def)
  then obtain n where "n \<ge> w_tick ?w" "populate_all l ?w = Some (None, set_details (dc_details (w_cache ?w) @ E) (?w\<lparr>w_tick := n\<rparr>))"
    by blast
  with 1 D(1) show ?case by (intro exI [of _ n]) (simp add: set_details_def)
qed

lemma populate_loadable:
  assumes "loadable D w"
  shows "\<exists>w'. populate w = Some (None, w') \<and> loaded D w' \<and> later w w'"
proof -
  let ?cl = "dc_client (w_cache w)"
  from assms obtain l where l: "map sum_ID l = keys_of D" "\<forall>t \<ge> w_tick w. ContainerList ?cl t = (Some l, None)"
    and i: "\<forall>(i, c) \<in> set D. \<forall>t \<ge> w_tick w. \<exists>c0. ContainerInspect ?cl t i = Inr c0 \<and> normalizes_to c0 c"
    by (auto simp: loadable_def steady_def)
  have w: "dc_list (w_cache w) = None" "dc_details (w_cache w) = []" "wf_map D"
    "list_all (\<lambda>(_, c). normal_container c) D" "brisk w"
    using assms by (simp_all add: loadable_def)
  define w1 where "w1 = w\<lparr>w_tick := Suc (Suc (w_tick w)), w_cache := (w_cache w)\<lparr>dc_list := Some l\<rparr>\<rparr>"
  have "w\<lparr>w_tick := Suc (w_tick w), w_cache := (w_cache w)\<lparr>dc_list := None, dc_details := []\<rparr>\<rparr>
      = w\<lparr>w_tick := Suc (w_tick w)\<rparr>" using w(1,2) by (intro world.equality dockerCache.equality) simp_all
  then have 1: "expire_cache w = w\<lparr>w_tick := Suc (w_tick w)\<rparr>"
    by (simp add: expire_cache_def time_now_def Let_def)
  have 2: "fetch_list (w\<lparr>w_tick := Suc (w_tick w)\<rparr>) = (None, w1)"
    using w(1) l(2) by (simp add: fetch_list_def list_containers_def w1_def)
  have "\<exists>n \<ge> w_tick w1. populate_all l w1 = Some (None, set_details (dc_details (w_cache w1) @ D) (w1\<lparr>w_tick := n\<rparr>))"
    using w(2,3) l(1) i by (intro populate_all_fresh) (auto simp: w1_def)
  then obtain n where n: "n \<ge> w_tick w1" "populate_all l w1 = Some (None, set_details D (w1\<lparr>w_tick := n\<rparr>))"
    using w(2) by (auto simp: w1_def)
  let ?w' = "renew_cache (set_details D (w1\<lparr>w_tick := n\<rparr>))"
  have p: "populate w = Some (None, ?w')" using 1 2 n(2) by (simp add: populate_def w1_def Let_def)
  have lt: "later w ?w'" using n(1) by (simp add: later_def renew_cache_def time_now_def set_details_def w1_def Let_def)
  have "w_now w t' \<le> w_now w n + cache_ttl" if "Suc n \<le> t'" for t'
    using w(5) n(1) that by (simp add: brisk_def w1_def)
  moreover have "\<forall>x \<in> set l. sum_ID x \<in> set (keys_of D)" by (simp flip: l(1))
  ultimately have "loaded D ?w'"
    using w(3,4) brisk_later [OF w(5) lt]
    by (simp add: loaded_def renew_cache_def time_now_def set_details_def w1_def Let_def)
  with p lt show ?thesis by blast
qed

section \<open>Settled worlds\<close>

text \<open>In a \<open>settled\<close> world the containers \<open>D\<close> are loaded, or the first lookup loads them.\<close>

definition settled :: "(string, inspect_response) gomap \<Rightarrow> world \<Rightarrow> bool" where
  "settled D w \<longleftrightarrow> loaded D w \<or> loadable D w"

lemma settled_later: "settled D w \<Longrightarrow> later w w' \<Longrightarrow> w_cache w' = w_cache w \<Longrightarrow> settled D w'"
  using loaded_later loadable_later by (auto simp: settled_def)

lemma settled_normal: "settled D w \<Longrightarrow> c \<in> snd ` set D \<Longrightarrow> normal_container c"
  by (auto simp: settled_def loaded_def loadable_def list_all_iff)

lemma settled_cache_inv: "settled D w \<Longrightarrow> cache_inv w"
  using loaded_cache_inv by (auto simp: settled_def loadable_def cache_inv_def containers_def)

lemma populate_settled:
  "settled D w \<Longrightarrow> \<exists>w'. populate w = Some (None, w') \<and> loaded D w' \<and> later w w'"
  using populate_loaded populate_loadable by (auto simp: settled_def)

text \<open>In a settled world a lookup cannot fail or panic; it answers from \<open>D\<close>.\<close>

lemma find_settled:
  assumes "settled D w"
  shows "\<exists>r w'. findContainerByServiceName svcType svcName routerName w = Some (r, w')
    \<and> settled D w' \<and> later w w'
    \<and> answers (service_matches svcType svcName routerName) (snd ` set D) r"
proof -
  obtain w1 where 1: "populate w = Some (None, w1)" "loaded D w1" "later w w1"
    using populate_settled [OF assms] by blast
  obtain seed w2 where s: "next_seed w1 = (seed, w2)" by (cases "next_seed w1")
  note l = next_seed_later [OF s]
  have s2: "loaded D w2" using loaded_later [OF 1(2)] l by blast
  then have "list_all (\<lambda>(_, c). normal_container c) (permute seed D)"
    by (simp add: loaded_def list_all_iff)
  then obtain q where q: "find_labelled (service_matches svcType svcName routerName) (permute seed D) = Some q"
    using find_labelled_total by blast
  have D: "dc_details (w_cache w2) = D" using s2 by (simp add: loaded_def)
  have lw: "later w w2" using later_trans [OF 1(3)] l by blast
  have "\<exists>r. findContainerByServiceName svcType svcName routerName w = Some (r, w2)
      \<and> (case q of None \<Rightarrow> \<exists>e. r = Inl e | Some c \<Rightarrow> r = Inr c)"
    using 1(1) q s D by (cases q) (simp_all add: findContainerByServiceName_def Let_def)
  then obtain r where r: "findContainerByServiceName svcType svcName routerName w = Some (r, w2)"
    "case q of None \<Rightarrow> \<exists>e. r = Inl e | Some c \<Rightarrow> r = Inr c" by blast
  moreover have "answers (service_matches svcType svcName routerName) (snd ` set D) r"
    using find_labelled_Some [OF q] r(2) by (cases q) auto
  ultimately show ?thesis using s2 lw unfolding settled_def by blast
qed

text \<open>
  One successful \<open>populate\<close> in a brisk world settles it, when the daemon's answers have no nil
  parts.
\<close>

definition sane_client :: "docker_client \<Rightarrow> bool" where
  "sane_client cl \<longleftrightarrow> (\<forall>t i c. ContainerInspect cl t i = Inr c \<longrightarrow> Base c \<noteq> None)"

definition based :: "world \<Rightarrow> bool" where
  "based w \<longleftrightarrow> sane_client (dc_client (w_cache w)) \<and> (\<forall>c \<in> containers w. Base c \<noteq> None)"

lemma populate_one_based:
  assumes "populate_one c w = Some (None, w')" and "based w"
  shows "based w' \<and> dc_list (w_cache w') = dc_list (w_cache w)
    \<and> set (keys_of (dc_details (w_cache w'))) = insert (sum_ID c) (set (keys_of (dc_details (w_cache w))))"
proof -
  let ?d = "dc_details (w_cache w)"
  obtain r u where r: "(case map_of ?d (sum_ID c) of
      Some i \<Rightarrow> (Inr i, w) | None \<Rightarrow> inspect_container (sum_ID c) w) = (r, u)" by fastforce
  then have u: "w_cache u = w_cache w"
    by (auto simp: inspect_container_def split: option.splits)
  from assms(1) r obtain i where i: "r = Inr i" by (auto simp: populate_one_def split: sum.splits)
  with assms(1) r u obtain seed v cfg i' where "Config i = Some cfg" "next_seed u = (seed, v)"
    and i': "set_labels (normalizeLabels seed (Labels cfg)) i = Some i'"
    and w': "w' = set_details (AList.update (sum_ID c) i' ?d) v"
    by (auto simp: populate_one_def bind_eq_Some_conv next_seed_def split: prod.splits)
  have "Base i \<noteq> None"
  proof (cases "map_of ?d (sum_ID c)")
    case None
    with r i have "ContainerInspect (dc_client (w_cache w)) (w_tick w) (sum_ID c) = Inr i"
      by (simp add: inspect_container_def)
    with assms(2) show ?thesis unfolding based_def sane_client_def by blast
  next
    case (Some j)
    with r i have "map_of ?d (sum_ID c) = Some i" by simp
    then have "i \<in> containers w" unfolding containers_def by (metis image_eqI map_of_SomeD snd_conv)
    with assms(2) show ?thesis unfolding based_def by blast
  qed
  with set_labels_normal [OF i'] have b: "Base i' \<noteq> None" by simp
  have v: "w_cache v = w_cache w" using \<open>next_seed u = (seed, v)\<close> u by (auto simp: next_seed_def)
  have "containers w' \<subseteq> insert i' (containers w)"
    using set_update_subset [of "sum_ID c" i' ?d] w' by (auto simp: containers_def set_details_def)
  with b assms(2) v w' have "based w'" by (auto simp: based_def set_details_def)
  with v w' show ?thesis by (simp add: set_details_def dom_update)
qed

lemma populate_all_based:
  "populate_all cs w = Some (None, w') \<Longrightarrow> based w \<Longrightarrow>
     based w' \<and> dc_list (w_cache w') = dc_list (w_cache w)
     \<and> sum_ID ` set cs \<subseteq> set (keys_of (dc_details (w_cache w')))
     \<and> set (keys_of (dc_details (w_cache w))) \<subseteq> set (keys_of (dc_details (w_cache w')))"
proof (induction cs arbitrary: w)
  case (Cons c cs)
  then obtain w1 where 1: "populate_one c w = Some (None, w1)" and 2: "populate_all cs w1 = Some (None, w')"
    by (auto simp: bind_eq_Some_conv split: if_splits)
  note b1 = populate_one_based [OF 1 Cons.prems(2)]
  with Cons.IH [OF 2] show ?case by auto
qed simp

lemma populate_settles:
  assumes "populate w = Some (None, w')" and "cache_inv w" and "based w" and "brisk w"
    and "dc_list (w_cache w') \<noteq> None"
  shows "loaded (dc_details (w_cache w')) w'"
  using assms(1)
proof (cases rule: populate_cases)
  case (inspected w1 w2)
  have "based (expire_cache w)"
    using assms(3) by (auto simp: based_def expire_cache_def time_now_def containers_def Let_def)
  then have b1: "based w1"
    using inspected(1)
    by (auto simp: based_def fetch_list_def list_containers_def containers_def Let_def
        split: if_splits prod.splits)
  let ?l = "case dc_list (w_cache w1) of None \<Rightarrow> [] | Some l \<Rightarrow> l"
  note b2 = populate_all_based [OF inspected(2) b1]
  have w': "w' = renew_cache w2" using inspected(3) by simp
  have same: "dc_list (w_cache w') = dc_list (w_cache w1)"
    "dc_details (w_cache w') = dc_details (w_cache w2)"
    using w' b2 by (simp_all add: renew_cache_def time_now_def Let_def)
  have inv: "cache_inv w'" "later w w'" using populate_inv [OF assms(1,2)] by auto
  have nc: "list_all (\<lambda>(_, c). normal_container c) (dc_details (w_cache w'))"
    using inv(1) b2 same(2)
    by (auto simp: list_all_iff cache_inv_def containers_def based_def normal_container_def image_iff)
  have "\<forall>t \<ge> w_tick w'. w_now w' t \<le> dc_expires (w_cache w')"
  proof -
    have t: "w_tick w' = Suc (w_tick w2)" "w_now w' = w_now w2"
      "dc_expires (w_cache w') = w_now w2 (w_tick w2) + cache_ttl"
      using w' by (simp_all add: renew_cache_def time_now_def Let_def)
    have "brisk w2"
    proof -
      have "later w w1"
        using expire_cache_inv [OF assms(2)] fetch_list_inv [OF inspected(1)] later_trans by blast
      moreover have "later w1 w2"
        using populate_all_inv [OF inspected(2)] fetch_list_inv [OF inspected(1)]
          expire_cache_inv [OF assms(2)] by blast
      ultimately show ?thesis using assms(4) later_trans brisk_later by metis
    qed
    with t show ?thesis by (simp add: brisk_def)
  qed
  moreover have "\<exists>l. dc_list (w_cache w') = Some l \<and> (\<forall>c \<in> set l. sum_ID c \<in> set (keys_of (dc_details (w_cache w'))))"
    using assms(5) b2 same by (auto simp: image_subset_iff)
  moreover have "wf_map (dc_details (w_cache w'))" using inv(1) by (simp add: cache_inv_def)
  ultimately show ?thesis using nc brisk_later [OF assms(4) inv(2)] by (simp add: loaded_def)
qed simp

section \<open>The contract of the lookup\<close>

text \<open>
  What the functions that resolve services rely on: in a ready state a lookup neither fails nor
  panics, it returns a labelled container of the loaded ones if there is one, and the state stays
  ready for the same containers.
\<close>

locale container_lookup =
  fixes lookup :: "string \<Rightarrow> string \<Rightarrow> string \<Rightarrow> 'w \<Rightarrow> ((string + inspect_response) \<times> 'w) option"
    and ready :: "(string, inspect_response) gomap \<Rightarrow> 'w \<Rightarrow> bool"
  assumes lookup_ready: "ready D w \<Longrightarrow>
    \<exists>r w'. lookup svcType svcName routerName w = Some (r, w') \<and> ready D w'
      \<and> answers (service_matches svcType svcName routerName) (snd ` set D) r"
begin

lemma lookup_unique:
  assumes "ready D w" and "c \<in> snd ` set D"
    and "labelled (service_matches svcType svcName routerName) c"
    and "\<And>c'. c' \<in> snd ` set D \<Longrightarrow> labelled (service_matches svcType svcName routerName) c' \<Longrightarrow> c' = c"
  shows "\<exists>w'. lookup svcType svcName routerName w = Some (Inr c, w') \<and> ready D w'"
proof -
  obtain r w' where r: "lookup svcType svcName routerName w = Some (r, w')" "ready D w'"
    and c: "answers (service_matches svcType svcName routerName) (snd ` set D) r"
    using lookup_ready [OF assms(1)] by blast
  show ?thesis
  proof (cases r)
    case (Inl e)
    with answers_InlD [OF _ assms(2,3), of e] c show ?thesis by blast
  next
    case (Inr c')
    with c have "c' = c" using assms(4) by simp
    with r Inr show ?thesis by blast
  qed
qed

lemma lookup_absent:
  assumes "ready D w"
    and "\<And>c. c \<in> snd ` set D \<Longrightarrow> \<not> labelled (service_matches svcType svcName routerName) c"
  shows "\<exists>e w'. lookup svcType svcName routerName w = Some (Inl e, w') \<and> ready D w'"
proof -
  obtain r w' where r: "lookup svcType svcName routerName w = Some (r, w')" "ready D w'"
    and c: "answers (service_matches svcType svcName routerName) (snd ` set D) r"
    using lookup_ready [OF assms(1)] by blast
  show ?thesis
  proof (cases r)
    case (Inl e)
    with r show ?thesis by blast
  next
    case (Inr c')
    with assms(2) answers_InrD c show ?thesis by metis
  qed
qed

end

interpretation dc: container_lookup findContainerByServiceName settled
proof unfold_locales
  fix D :: "(string, inspect_response) gomap" and w svcType svcName routerName
  assume "settled D w"
  from find_settled [OF this, of svcType svcName routerName]
  show "\<exists>r w'. findContainerByServiceName svcType svcName routerName w = Some (r, w') \<and> settled D w'
      \<and> answers (service_matches svcType svcName routerName) (snd ` set D) r"
    by blast
qed

section \<open>Names with capital letters\<close>

lemma prefix_normal_key:
  assumes "normal_labels l" and "k \<in> set (keys_of l)" and "prefix p k" and "c \<in> set p"
  shows "\<not> is_upper c"
proof -
  have "c \<in> set k" using assms(3,4) set_mono_prefix by blast
  moreover have "ToLower k = k" using assms(1,2) by (auto simp: normal_labels_def list_all_iff)
  ultimately show ?thesis using ToLower_not_upper by metis
qed

lemma upper_not_labelled:
  assumes "labels_normal c" and "\<exists>u \<in> set s. is_upper u" and "r = [] \<or> (\<exists>u \<in> set r. is_upper u)"
  shows "\<not> labelled (label_matches svcType s r) c"
proof
  assume "labelled (label_matches svcType s r) c"
  then obtain k where k: "k \<in> set (keys_of (container_labels c))" "label_matches svcType s r k"
    by (auto simp: labelled_def list_ex_iff)
  have n: "normal_labels (container_labels c)" using assms(1) by (simp add: labels_normal_def)
  from k(2) consider "HasPrefix k (svcNeedle svcType s)" | "r \<noteq> []" "HasPrefix k (routerNeedle svcType r)"
    by (auto simp: label_matches_def)
  then show False
  proof cases
    case 1
    with prefix_normal_key [OF n k(1)] assms(2) show ?thesis by (fastforce simp: svcNeedle_def)
  next
    case 2
    with prefix_normal_key [OF n k(1)] assms(3) show ?thesis by (fastforce simp: routerNeedle_def)
  qed
qed

section \<open>Port bindings\<close>

lemma getServicePortBinding_usable:
  assumes "getServicePortBinding c svcType port = Some p" and "p \<noteq> []"
  shows "p \<noteq> ''0''"
  using assms
  by (auto simp: getServicePortBinding_def Let_def bind_eq_Some_conv find_Some_iff usable_port_def
      split: option.splits)

lemma getPortBinding_nonempty: "getPortBinding c = Some (Inr p) \<Longrightarrow> p \<noteq> []"
  by (auto simp: getPortBinding_def Let_def bind_eq_Some_conv usable_port_def
      split: option.splits if_splits)

lemma getPortBinding_two:
  assumes "Base c = Some b" and "ctr_HostConfig b = Some h" and "length (PortBindings h) > 1"
  shows "getPortBinding c = Some (Inl (MoreThanOneBinding (ctr_Name b)))"
  using assms by (simp add: getPortBinding_def Let_def)

end
