(* ===== verification/KV.thy ===== *)
theory KV
  imports Util
begin

text \<open>
  The flattening of a traefik configuration into key/value pairs, \<^verbatim>\<open>kv.go\<close>.

  The walker of the source works on \<open>reflect.Type\<close> and \<open>reflect.Value\<close>. A \<open>gval\<close> is the
  typed value reflection shows: the kind, whether the type implements a marshaler (with what the
  marshaler returns for this value), the struct fields with their tags, the map entries in the
  order this walk visits them, the elements of a slice. \<open>None\<close> is a nil pointer, interface, map
  or slice; a map type whose keys are not strings carries the name of its key type. A floating point value carries whether it is zero and its shortest decimal text.

  \<open>entries\<close> is the declarative reading of the walk: the list of (path, text) pairs the tree
  denotes; \<open>walkable\<close> says that no map with a non-string key and no failing marshaler is reached.
  The lemmas show that the walker with its accumulating KV implements them.
\<close>

section \<open>Reflected values\<close>

datatype json_result = JsonError string | JsonString string | JsonNull | JsonOther string

datatype marshaler = NoMarshaler | TextMarshaler "string + string" | JsonMarshaler json_result

record field_info =
  fld_name :: string
  fld_PkgPath :: string
  fld_Anonymous :: bool
  fld_json :: string
  fld_label :: string

datatype gval =
    GInvalid
  | GIface "gval option"
  | GPtr "gval option"
  | GStruct marshaler "(field_info \<times> gval) list"
  | GMap marshaler "string option" "(string \<times> gval) list option"
  | GSlice marshaler "gval list option"
  | GArray marshaler "gval list"
  | GString marshaler string
  | GBool marshaler bool
  | GInt marshaler int
  | GUint marshaler nat
  | GFloat marshaler bool string
  | GOther marshaler

fun is_struct :: "gval \<Rightarrow> bool" where
  "is_struct (GStruct _ _) = True"
| "is_struct _ = False"

fun marshaler_of :: "gval \<Rightarrow> marshaler" where
  "marshaler_of (GStruct m _) = m"
| "marshaler_of (GMap m _ _) = m"
| "marshaler_of (GSlice m _) = m"
| "marshaler_of (GArray m _) = m"
| "marshaler_of (GString m _) = m"
| "marshaler_of (GBool m _) = m"
| "marshaler_of (GInt m _) = m"
| "marshaler_of (GUint m _) = m"
| "marshaler_of (GFloat m _ _) = m"
| "marshaler_of (GOther m) = m"
| "marshaler_of _ = NoMarshaler"

section \<open>The KV accumulator\<close>

record KV =
  kv_data :: "(string, string) gomap"
  kv_base :: string

definition NewKV :: KV where
  "NewKV = \<lparr>kv_data = [], kv_base = []\<rparr>"

definition SetBase :: "string \<Rightarrow> KV \<Rightarrow> KV" where
  "SetBase b kv = kv\<lparr>kv_base := b\<rparr>"

text \<open>
  \<open>add\<close>, for a string value and a format with no operands, as every caller passes them: the
  path itself is the format, so a percent sign in it is taken as a directive.
\<close>

definition kv_key :: "string \<Rightarrow> string \<Rightarrow> string" where
  "kv_key base path = Sprintf0 (if base \<noteq> [] then base @ ''/'' @ path else path)"

definition kv_add :: "string \<Rightarrow> string \<Rightarrow> KV \<Rightarrow> KV" where
  "kv_add val format kv =
     (if val = [] then kv
      else let key = kv_key (kv_base kv) format
           in if HasPrefix key ''traefik/tls/'' then kv
              else kv\<lparr>kv_data := AList.update key val (kv_data kv)\<rparr>)"

section \<open>Leaves and tags\<close>

definition isLeafType :: "gval \<Rightarrow> bool" where
  "isLeafType v \<longleftrightarrow> marshaler_of v \<noteq> NoMarshaler \<or>
     (case v of GBool _ _ \<Rightarrow> True | GInt _ _ \<Rightarrow> True | GUint _ _ \<Rightarrow> True | GFloat _ _ _ \<Rightarrow> True
      | GString _ _ \<Rightarrow> True | _ \<Rightarrow> False)"

definition trim_quotes :: "string \<Rightarrow> string" where
  "trim_quotes s = rev (dropWhile (\<lambda>c. c = CHR 34) (rev (dropWhile (\<lambda>c. c = CHR 34) s)))"

definition leafString :: "gval \<Rightarrow> string + (string \<times> bool)" where
  "leafString v =
     (case marshaler_of v of
        TextMarshaler (Inl e) \<Rightarrow> Inl e
      | TextMarshaler (Inr s) \<Rightarrow> Inr (s, s \<noteq> [])
      | JsonMarshaler r \<Rightarrow>
          (case r of
             JsonError e \<Rightarrow> Inl e
           | JsonString s \<Rightarrow> Inr (s, s \<noteq> [])
           | JsonNull \<Rightarrow> Inr ([], False)
           | JsonOther b \<Rightarrow> let s = trim_quotes b in Inr (s, s \<noteq> []))
      | NoMarshaler \<Rightarrow>
          (case v of
             GString _ s \<Rightarrow> Inr (s, s \<noteq> [])
           | GBool _ b \<Rightarrow> Inr (FormatBool b, True)
           | GInt _ i \<Rightarrow> Inr (FormatInt i, True)
           | GUint _ n \<Rightarrow> Inr (FormatInt (int n), True)
           | GFloat _ _ s \<Rightarrow> Inr (s, True)
           | _ \<Rightarrow> Inr ([], False)))"

definition joinPath :: "string \<Rightarrow> string \<Rightarrow> string" where
  "joinPath base child = base @ ''/'' @ child"

text \<open>Name, omitempty, skip.\<close>

definition jsonFieldName :: "field_info \<Rightarrow> string \<times> bool \<times> bool" where
  "jsonFieldName f =
     (let tag = fld_json f
      in if tag = ''-'' then ([], False, True)
         else let parts = Split tag CHR '','';
                  name = (if hd parts \<noteq> [] then hd parts else fld_name f)
              in (name, ''omitempty'' \<in> set (tl parts), False))"

fun isEmptyJSONValue :: "gval \<Rightarrow> bool" where
  "isEmptyJSONValue GInvalid = True"
| "isEmptyJSONValue (GArray _ xs) = (xs = [])"
| "isEmptyJSONValue (GMap _ _ m) = (m = None \<or> m = Some [])"
| "isEmptyJSONValue (GSlice _ xs) = (xs = None \<or> xs = Some [])"
| "isEmptyJSONValue (GString _ s) = (s = [])"
| "isEmptyJSONValue (GBool _ b) = (\<not> b)"
| "isEmptyJSONValue (GInt _ i) = (i = 0)"
| "isEmptyJSONValue (GUint _ n) = (n = 0)"
| "isEmptyJSONValue (GFloat _ z _) = z"
| "isEmptyJSONValue (GIface v) = (v = None)"
| "isEmptyJSONValue (GPtr v) = (v = None)"
| "isEmptyJSONValue _ = False"

text \<open>The regular expression \<open>^traefik/(http|tcp|udp)/(router|service|middleware)s$\<close>.\<close>

definition reKeyName :: "string \<Rightarrow> bool" where
  "reKeyName path \<longleftrightarrow>
     path \<in> set (concat (map (\<lambda>p. map (\<lambda>k. ''traefik/'' @ p @ ''/'' @ k @ ''s'')
       [''router'', ''service'', ''middleware'']) [''http'', ''tcp'', ''udp'']))"

section \<open>The walker\<close>

text \<open>The branch for a leaf type.\<close>

definition walkLeaf :: "string \<Rightarrow> gval \<Rightarrow> KV \<Rightarrow> string + (bool \<times> KV)" where
  "walkLeaf path v kv =
     (case leafString v of
        Inl e \<Rightarrow> Inl (''walk '' @ path @ '': '' @ e)
      | Inr (s, ok) \<Rightarrow> if ok then Inr (True, kv_add s path kv) else Inr (False, kv))"

text \<open>Is a struct field walked, under which path, and may it be an empty marker?\<close>

definition field_path :: "string \<Rightarrow> field_info \<Rightarrow> gval \<Rightarrow> (string \<times> bool) option" where
  "field_path path field v =
     (if fld_PkgPath field \<noteq> [] then None
      else let (fieldName, omitEmpty, skip) = jsonFieldName field
           in if skip then None
              else if omitEmpty \<and> isEmptyJSONValue v then None
              else if fld_Anonymous field \<and> fieldName = fld_name field then Some (path, False)
              else Some (joinPath path fieldName, fld_label field = ''allowEmpty''))"

definition entry_path :: "string \<Rightarrow> string \<Rightarrow> string" where
  "entry_path path k = joinPath path (if reKeyName path then stripDocker k else k)"

definition index_path :: "string \<Rightarrow> nat \<Rightarrow> string" where
  "index_path path i = path @ ''/'' @ itoa_nat i"

text \<open>
  The loops over struct fields, map entries and slice elements take the recursive call
  \<open>walk\<close> on the children as their first argument.
\<close>

type_synonym walk_result = "string + (bool \<times> KV)"
type_synonym walker = "string \<Rightarrow> gval \<Rightarrow> bool \<Rightarrow> KV \<Rightarrow> walk_result"

fun walkStructValue :: "walker \<Rightarrow> string \<Rightarrow> (field_info \<times> gval) list \<Rightarrow> bool \<Rightarrow> KV \<Rightarrow> walk_result" where
  "walkStructValue walk path [] addedAny kv = Inr (addedAny, kv)"
| "walkStructValue walk path ((field, v) # fs) addedAny kv =
     (case field_path path field v of
        None \<Rightarrow> walkStructValue walk path fs addedAny kv
      | Some (childPath, allowEmpty) \<Rightarrow>
          (case walk childPath v allowEmpty kv of
             Inl e \<Rightarrow> Inl e
           | Inr (added, kv') \<Rightarrow> walkStructValue walk path fs (addedAny \<or> added) kv'))"

fun walkMapValue :: "walker \<Rightarrow> string \<Rightarrow> (string \<times> gval) list \<Rightarrow> bool \<Rightarrow> KV \<Rightarrow> walk_result" where
  "walkMapValue walk path [] addedAny kv = Inr (addedAny, kv)"
| "walkMapValue walk path ((k, v) # es) addedAny kv =
     (case walk (entry_path path k) v False kv of
        Inl e \<Rightarrow> Inl e
      | Inr (added, kv') \<Rightarrow> walkMapValue walk path es (addedAny \<or> added) kv')"

fun walkSliceValue :: "walker \<Rightarrow> string \<Rightarrow> nat \<Rightarrow> gval list \<Rightarrow> bool \<Rightarrow> KV \<Rightarrow> walk_result" where
  "walkSliceValue walk path i [] addedAny kv = Inr (addedAny, kv)"
| "walkSliceValue walk path i (v # vs) addedAny kv =
     (case walk (index_path path i) v False kv of
        Inl e \<Rightarrow> Inl e
      | Inr (added, kv') \<Rightarrow> walkSliceValue walk path (Suc i) vs (addedAny \<or> added) kv')"

lemma walkStructValue_cong [fundef_cong]:
  assumes "path = path'" "fs = fs'" "b = b'" "kv = kv'"
    and "\<And>f v p a kv. (f, v) \<in> set fs' \<Longrightarrow> walk p v a kv = walk' p v a kv"
  shows "walkStructValue walk path fs b kv = walkStructValue walk' path' fs' b' kv'"
  using assms(5) unfolding assms(1-4)
proof (induction fs' arbitrary: b' kv')
  case (Cons x xs)
  obtain f v where x: "x = (f, v)" by (cases x)
  have hd: "walk p v a kv = walk' p v a kv" for p a kv
    using Cons.prems x by (simp; fastforce)
  have "walkStructValue walk path' xs c kv = walkStructValue walk' path' xs c kv" for c kv
    by (rule Cons.IH) (rule Cons.prems, rule list.set_intros(2))
  then show ?case by (simp add: x hd split: option.splits sum.splits)
qed simp

lemma walkMapValue_cong [fundef_cong]:
  assumes "path = path'" "es = es'" "b = b'" "kv = kv'"
    and "\<And>k v p a kv. (k, v) \<in> set es' \<Longrightarrow> walk p v a kv = walk' p v a kv"
  shows "walkMapValue walk path es b kv = walkMapValue walk' path' es' b' kv'"
  using assms(5) unfolding assms(1-4)
proof (induction es' arbitrary: b' kv')
  case (Cons x xs)
  obtain k v where x: "x = (k, v)" by (cases x)
  have hd: "walk p v a kv = walk' p v a kv" for p a kv
    using Cons.prems x by (simp; fastforce)
  have "walkMapValue walk path' xs c kv = walkMapValue walk' path' xs c kv" for c kv
    by (rule Cons.IH) (rule Cons.prems, rule list.set_intros(2))
  then show ?case by (simp add: x hd split: option.splits sum.splits)
qed simp

lemma walkSliceValue_cong [fundef_cong]:
  assumes "path = path'" "i = i'" "vs = vs'" "b = b'" "kv = kv'"
    and "\<And>v p a kv. v \<in> set vs' \<Longrightarrow> walk p v a kv = walk' p v a kv"
  shows "walkSliceValue walk path i vs b kv = walkSliceValue walk' path' i' vs' b' kv'"
  using assms(6) unfolding assms(1-5)
proof (induction vs' arbitrary: i' b' kv')
  case (Cons x xs)
  define v where x: "v = x"
  have hd: "walk p v a kv = walk' p v a kv" for p a kv
    using Cons.prems x by (simp; fastforce)
  have "walkSliceValue walk path' j xs c kv = walkSliceValue walk' path' j xs c kv" for j c kv
    by (rule Cons.IH) (rule Cons.prems, rule list.set_intros(2))
  then show ?case by (simp add: hd [unfolded x] split: option.splits sum.splits)
qed simp

lemma size_gval_pair [termination_simp]:
  "(k, v) \<in> set es \<Longrightarrow> size v < Suc (size_list (size_prod f size) es)"
  by (induction es) auto

lemma size_gval_elem [termination_simp]: "v \<in> set vs \<Longrightarrow> size v < Suc (size_list size vs)"
  by (induction vs) auto

lemma size_gval_enumerate [termination_simp]:
  "(i, v) \<in> set (enumerate n vs) \<Longrightarrow> size v < Suc (size_list size vs)"
  by (auto simp: in_set_enumerate_eq size_gval_elem)

fun walkTypedValue :: walker where
  "walkTypedValue path GInvalid allowEmpty kv = Inr (False, kv)"
| "walkTypedValue path (GIface v) allowEmpty kv =
     (case v of None \<Rightarrow> Inr (False, kv) | Some v' \<Rightarrow> walkTypedValue path v' allowEmpty kv)"
| "walkTypedValue path (GPtr v) allowEmpty kv =
     (case v of
        None \<Rightarrow> Inr (False, kv)
      | Some v' \<Rightarrow>
          (case walkTypedValue path v' False kv of
             Inl e \<Rightarrow> Inl e
           | Inr (added, kv') \<Rightarrow>
               if \<not> added \<and> allowEmpty \<and> is_struct v' then Inr (True, kv_add ''true'' path kv')
               else Inr (added, kv')))"
| "walkTypedValue path (GStruct m fs) allowEmpty kv =
     (if isLeafType (GStruct m fs) then walkLeaf path (GStruct m fs) kv
      else walkStructValue walkTypedValue path fs False kv)"
| "walkTypedValue path (GMap m keyType es) allowEmpty kv =
     (if isLeafType (GMap m keyType es) then walkLeaf path (GMap m keyType es) kv
      else (case es of
              None \<Rightarrow> Inr (False, kv)
            | Some es' \<Rightarrow>
                if es' = [] then Inr (False, kv)
                else (case keyType of
                        Some t \<Rightarrow> Inl (''unsupported map key type '' @ t @ '' at '' @ path)
                      | None \<Rightarrow> walkMapValue walkTypedValue path es' False kv)))"
| "walkTypedValue path (GSlice m xs) allowEmpty kv =
     (if isLeafType (GSlice m xs) then walkLeaf path (GSlice m xs) kv
      else (case xs of None \<Rightarrow> Inr (False, kv) | Some ys \<Rightarrow> walkSliceValue walkTypedValue path 0 ys False kv))"
| "walkTypedValue path (GArray m ys) allowEmpty kv =
     (if isLeafType (GArray m ys) then walkLeaf path (GArray m ys) kv
      else walkSliceValue walkTypedValue path 0 ys False kv)"
| "walkTypedValue path (GString m x) allowEmpty kv = walkLeaf path (GString m x) kv"
| "walkTypedValue path (GBool m x) allowEmpty kv = walkLeaf path (GBool m x) kv"
| "walkTypedValue path (GInt m x) allowEmpty kv = walkLeaf path (GInt m x) kv"
| "walkTypedValue path (GUint m x) allowEmpty kv = walkLeaf path (GUint m x) kv"
| "walkTypedValue path (GFloat m z x) allowEmpty kv = walkLeaf path (GFloat m z x) kv"
| "walkTypedValue path (GOther m) allowEmpty kv =
     (if isLeafType (GOther m) then walkLeaf path (GOther m) kv else Inr (False, kv))"

definition ConfigToKV :: "gval \<Rightarrow> string + (string, string) gomap" where
  "ConfigToKV conf =
     (case walkTypedValue ''traefik'' conf False NewKV of
        Inl e \<Rightarrow> Inl (''failed to create kv: '' @ e)
      | Inr (_, kv) \<Rightarrow> Inr (kv_data kv))"

section \<open>What the walk denotes\<close>

definition leaf_entries :: "string \<Rightarrow> gval \<Rightarrow> (string \<times> string) list" where
  "leaf_entries path v = (case leafString v of Inr (s, True) \<Rightarrow> [(path, s)] | _ \<Rightarrow> [])"

fun entries :: "string \<Rightarrow> bool \<Rightarrow> gval \<Rightarrow> (string \<times> string) list" where
  "entries path ae GInvalid = []"
| "entries path ae (GIface v) = (case v of None \<Rightarrow> [] | Some v' \<Rightarrow> entries path ae v')"
| "entries path ae (GPtr v) =
     (case v of
        None \<Rightarrow> []
      | Some v' \<Rightarrow> if entries path False v' = [] \<and> ae \<and> is_struct v' then [(path, ''true'')]
                   else entries path False v')"
| "entries path ae (GStruct m fs) =
     (if isLeafType (GStruct m fs) then leaf_entries path (GStruct m fs)
      else concat (map (\<lambda>(f, v). case field_path path f v of
                                   None \<Rightarrow> [] | Some (p, a) \<Rightarrow> entries p a v) fs))"
| "entries path ae (GMap m t es) =
     (if isLeafType (GMap m t es) then leaf_entries path (GMap m t es)
      else (case es of
              None \<Rightarrow> []
            | Some es' \<Rightarrow> concat (map (\<lambda>(k, v). entries (entry_path path k) False v) es')))"
| "entries path ae (GSlice m xs) =
     (if isLeafType (GSlice m xs) then leaf_entries path (GSlice m xs)
      else (case xs of
              None \<Rightarrow> []
            | Some ys \<Rightarrow> concat (map (\<lambda>(i, v). entries (index_path path i) False v) (enumerate 0 ys))))"
| "entries path ae (GArray m ys) =
     (if isLeafType (GArray m ys) then leaf_entries path (GArray m ys)
      else concat (map (\<lambda>(i, v). entries (index_path path i) False v) (enumerate 0 ys)))"
| "entries path ae (GOther m) =
     (if isLeafType (GOther m) then leaf_entries path (GOther m) else [])"
| "entries path ae v = leaf_entries path v"

definition leaf_ok :: "gval \<Rightarrow> bool" where
  "leaf_ok v = (case leafString v of Inl _ \<Rightarrow> False | Inr _ \<Rightarrow> True)"

fun walkable :: "gval \<Rightarrow> bool" where
  "walkable (GIface v) = (case v of None \<Rightarrow> True | Some v' \<Rightarrow> walkable v')"
| "walkable (GPtr v) = (case v of None \<Rightarrow> True | Some v' \<Rightarrow> walkable v')"
| "walkable (GStruct m fs) =
     (if isLeafType (GStruct m fs) then leaf_ok (GStruct m fs)
      else list_all (\<lambda>(f, v). field_path [] f v = None \<or> walkable v) fs)"
| "walkable (GMap m t es) =
     (if isLeafType (GMap m t es) then leaf_ok (GMap m t es)
      else (case es of
              None \<Rightarrow> True
            | Some es' \<Rightarrow> es' = [] \<or> (t = None \<and> list_all (\<lambda>(k, v). walkable v) es')))"
| "walkable (GSlice m xs) =
     (if isLeafType (GSlice m xs) then leaf_ok (GSlice m xs)
      else (case xs of None \<Rightarrow> True | Some ys \<Rightarrow> list_all walkable ys))"
| "walkable (GArray m ys) =
     (if isLeafType (GArray m ys) then leaf_ok (GArray m ys) else list_all walkable ys)"
| "walkable v = leaf_ok v"

section \<open>The walker implements its reading\<close>

definition put_all :: "(string \<times> string) list \<Rightarrow> KV \<Rightarrow> KV" where
  "put_all es kv = fold (\<lambda>(p, s). kv_add s p) es kv"

lemma put_all_simps [simp]:
  "put_all [] kv = kv"
  "put_all (e # es) kv = put_all es (kv_add (snd e) (fst e) kv)"
  "put_all (es @ es') kv = put_all es' (put_all es kv)"
  by (auto simp: put_all_def split: prod.splits)

definition implements :: "walk_result \<Rightarrow> bool \<Rightarrow> (string \<times> string) list \<Rightarrow> bool \<Rightarrow> KV \<Rightarrow> bool" where
  "implements r ok es b kv =
     (case r of
        Inl _ \<Rightarrow> \<not> ok
      | Inr (b', kv') \<Rightarrow> ok \<and> b' = (b \<or> es \<noteq> []) \<and> kv' = put_all es kv)"

lemma implements_simps [simp]:
  "implements (Inl e) ok es b kv \<longleftrightarrow> \<not> ok"
  "implements (Inr (b', kv')) ok es b kv \<longleftrightarrow> ok \<and> b' = (b \<or> es \<noteq> []) \<and> kv' = put_all es kv"
  by (simp_all add: implements_def)

lemma field_path_None_iff: "field_path p f v = None \<longleftrightarrow> field_path [] f v = None"
  by (auto simp: field_path_def Let_def split: prod.splits if_splits)

lemma leaf_ok_simps [simp]:
  "leaf_ok GInvalid" "\<not> isLeafType (GOther m) \<Longrightarrow> leaf_ok (GOther m)"
  by (simp_all add: leaf_ok_def leafString_def isLeafType_def)

lemma walkLeaf_implements:
  "implements (walkLeaf path v kv) (leaf_ok v) (leaf_entries path v) False kv"
  by (auto simp: implements_def walkLeaf_def leaf_ok_def leaf_entries_def split: sum.splits prod.splits)

lemma walkStructValue_implements:
  assumes "\<And>f v p a kv. (f, v) \<in> set fs \<Longrightarrow>
      implements (walk p v a kv) (walkable v) (entries p a v) False kv"
  shows "implements (walkStructValue walk path fs b kv)
    (list_all (\<lambda>(f, v). field_path [] f v = None \<or> walkable v) fs)
    (concat (map (\<lambda>(f, v). case field_path path f v of
                             None \<Rightarrow> [] | Some (p, a) \<Rightarrow> entries p a v) fs)) b kv"
  using assms
proof (induction fs arbitrary: b kv)
  case (Cons x fs)
  obtain f v where x: "x = (f, v)" by (cases x)
  have IH: "implements (walkStructValue walk path fs c kv)
    (list_all (\<lambda>(f, v). field_path [] f v = None \<or> walkable v) fs)
    (concat (map (\<lambda>(f, v). case field_path path f v of
                             None \<Rightarrow> [] | Some (p, a) \<Rightarrow> entries p a v) fs)) c kv" for c kv
    by (rule Cons.IH) (rule Cons.prems, rule list.set_intros(2))
  show ?case
  proof (cases "field_path path f v")
    case None
    moreover have "field_path [] f v = None" using None field_path_None_iff [of path f v] by simp
    ultimately show ?thesis using IH [of b kv] by (simp add: x)
  next
    case (Some pa)
    obtain p a where pa: "pa = (p, a)" by (cases pa)
    have nn: "field_path [] f v \<noteq> None" using Some field_path_None_iff [of path f v] by simp
    have hd: "implements (walk p v a kv) (walkable v) (entries p a v) False kv"
      by (rule Cons.prems [of f]) (simp add: x)
    then show ?thesis
    proof (cases "walk p v a kv")
      case (Inl e)
      with hd Some pa nn show ?thesis by (simp add: x implements_def)
    next
      case (Inr r)
      with hd IH [of "b \<or> fst r" "snd r"] Some pa nn show ?thesis
        by (auto simp: x implements_def split: sum.splits prod.splits)
    qed
  qed
qed (simp add: implements_def)

lemma walkMapValue_implements:
  assumes "\<And>k v p a kv. (k, v) \<in> set es \<Longrightarrow>
      implements (walk p v a kv) (walkable v) (entries p a v) False kv"
  shows "implements (walkMapValue walk path es b kv) (list_all (\<lambda>(k, v). walkable v) es)
    (concat (map (\<lambda>(k, v). entries (entry_path path k) False v) es)) b kv"
  using assms
proof (induction es arbitrary: b kv)
  case (Cons x es)
  obtain k v where x: "x = (k, v)" by (cases x)
  have IH: "implements (walkMapValue walk path es c kv) (list_all (\<lambda>(k, v). walkable v) es)
    (concat (map (\<lambda>(k, v). entries (entry_path path k) False v) es)) c kv" for c kv
    by (rule Cons.IH) (rule Cons.prems, rule list.set_intros(2))
  have hd: "implements (walk (entry_path path k) v False kv) (walkable v)
      (entries (entry_path path k) False v) False kv"
    by (rule Cons.prems [of k]) (simp add: x)
  show ?case
  proof (cases "walk (entry_path path k) v False kv")
    case (Inr r)
    with hd IH [of "b \<or> fst r" "snd r"] show ?thesis
      by (auto simp: x implements_def split: sum.splits prod.splits)
  qed (use hd in \<open>simp add: x implements_def\<close>)
qed (simp add: implements_def)

lemma walkSliceValue_implements:
  assumes "\<And>v p a kv. v \<in> set vs \<Longrightarrow>
      implements (walk p v a kv) (walkable v) (entries p a v) False kv"
  shows "implements (walkSliceValue walk path i vs b kv) (list_all walkable vs)
    (concat (map (\<lambda>(i, v). entries (index_path path i) False v) (enumerate i vs))) b kv"
  using assms
proof (induction vs arbitrary: i b kv)
  case (Cons v vs)
  have IH: "implements (walkSliceValue walk path i vs c kv) (list_all walkable vs)
    (concat (map (\<lambda>(i, v). entries (index_path path i) False v) (enumerate i vs))) c kv" for i c kv
    by (rule Cons.IH) (rule Cons.prems, rule list.set_intros(2))
  have hd: "implements (walk (index_path path i) v False kv) (walkable v)
      (entries (index_path path i) False v) False kv"
    by (rule Cons.prems) simp
  show ?case
  proof (cases "walk (index_path path i) v False kv")
    case (Inr r)
    with hd IH [of "Suc i" "b \<or> fst r" "snd r"] show ?thesis
      by (auto simp: implements_def split: sum.splits prod.splits)
  qed (use hd in \<open>simp add: implements_def\<close>)
qed (simp add: implements_def)

lemma walkTypedValue_implements:
  "implements (walkTypedValue path v ae kv) (walkable v) (entries path ae v) False kv"
proof (induction path v ae kv rule: walkTypedValue.induct)
  case (3 path v ae kv)
  then show ?case by (cases v) (auto simp: implements_def split: sum.splits prod.splits)
next
  case (4 path m fs ae kv)
  show ?case
  proof (cases "isLeafType (GStruct m fs)")
    case False
    then have "implements (walkTypedValue p v a k) (walkable v) (entries p a v) False k"
      if "(f, v) \<in> set fs" for f v p a k using "4" that by blast
    from walkStructValue_implements [OF this] False show ?thesis by simp
  qed (simp add: walkLeaf_implements)
next
  case (5 path m t es ae kv)
  show ?case
  proof (cases "isLeafType (GMap m t es) \<or> es = None \<or> es = Some [] \<or> t \<noteq> None")
    case False
    then obtain es' where es: "es = Some es'" "es' \<noteq> []" and t: "t = None" by auto
    have "implements (walkTypedValue p v a k) (walkable v) (entries p a v) False k"
      if "(n, v) \<in> set es'" for n v p a k using "5" False es t that by blast
    from walkMapValue_implements [OF this] False es t show ?thesis by simp
  qed (auto simp: walkLeaf_implements split: option.splits)
next
  case (6 path m xs ae kv)
  show ?case
  proof (cases "isLeafType (GSlice m xs) \<or> xs = None")
    case False
    then obtain ys where ys: "xs = Some ys" by auto
    have "implements (walkTypedValue p v a k) (walkable v) (entries p a v) False k"
      if "v \<in> set ys" for v p a k using "6" False ys that by blast
    from walkSliceValue_implements [OF this] False ys show ?thesis by simp
  qed (auto simp: walkLeaf_implements)
next
  case (7 path m ys ae kv)
  show ?case
  proof (cases "isLeafType (GArray m ys)")
    case False
    then have "implements (walkTypedValue p v a k) (walkable v) (entries p a v) False k"
      if "v \<in> set ys" for v p a k using "7" that by blast
    from walkSliceValue_implements [OF this] False show ?thesis by simp
  qed (simp add: walkLeaf_implements)
qed (auto simp: walkLeaf_implements split: option.splits)

section \<open>The published map\<close>

text \<open>The pairs that reach the map: non-empty, and not below \<open>traefik/tls/\<close>.\<close>

definition published :: "(string \<times> string) list \<Rightarrow> (string, string) gomap" where
  "published es = filter (\<lambda>(k, x). x \<noteq> [] \<and> \<not> HasPrefix k ''traefik/tls/'')
                    (map (\<lambda>(p, x). (Sprintf0 p, x)) es)"

lemma kv_add_base [simp]: "kv_base (kv_add x p kv) = kv_base kv"
  by (simp add: kv_add_def Let_def)

lemma map_of_kv_add:
  "kv_base kv = [] \<Longrightarrow> map_of (kv_data (kv_add x p kv)) = map_of (kv_data kv) ++ map_of (rev (published [(p, x)]))"
  by (auto simp: kv_add_def kv_key_def published_def Let_def update_conv')

lemma wf_map_kv_add: "wf_map (kv_data kv) \<Longrightarrow> wf_map (kv_data (kv_add x p kv))"
  by (simp add: kv_add_def Let_def)

lemma published_Cons: "published (e # es) = published [e] @ published es"
  by (simp add: published_def split: prod.splits)

lemma map_of_put_all:
  "kv_base kv = [] \<Longrightarrow> map_of (kv_data (put_all es kv)) = map_of (kv_data kv) ++ map_of (rev (published es))"
proof (induction es arbitrary: kv)
  case (Cons e es)
  then show ?case
    by (simp add: map_of_kv_add published_Cons [of e es] map_add_assoc)
qed (simp add: published_def)

lemma wf_map_put_all: "wf_map (kv_data kv) \<Longrightarrow> wf_map (kv_data (put_all es kv))"
  by (induction es arbitrary: kv) (auto simp: wf_map_kv_add)

lemma ConfigToKV_cases:
  "case ConfigToKV v of
     Inl e \<Rightarrow> \<not> walkable v
   | Inr m \<Rightarrow> walkable v \<and> wf_map m
       \<and> map_of m = map_of (rev (published (entries ''traefik'' False v)))"
  using walkTypedValue_implements [of "''traefik''" v False NewKV]
  by (auto simp: ConfigToKV_def map_of_put_all wf_map_put_all NewKV_def
      split: sum.splits prod.splits)

lemma ConfigToKV_Inr:
  assumes "ConfigToKV v = Inr m"
  shows "walkable v" and "wf_map m"
    and "map_of m = map_of (rev (published (entries ''traefik'' False v)))"
  using assms ConfigToKV_cases [of v] by auto

lemma ConfigToKV_walkable: "walkable v \<Longrightarrow> \<exists>m. ConfigToKV v = Inr m"
  using ConfigToKV_cases [of v] by (auto split: sum.splits)

lemma ConfigToKV_entry:
  assumes "ConfigToKV v = Inr m" and "map_of m k = Some x"
  shows "(k, x) \<in> set (published (entries ''traefik'' False v))"
  using assms(2) map_of_SomeD unfolding ConfigToKV_Inr(3) [OF assms(1)] by fastforce

lemma ConfigToKV_unique:
  assumes "ConfigToKV v = Inr m" and "distinct (keys_of (published (entries ''traefik'' False v)))"
  shows "map_of m k = Some x \<longleftrightarrow> (k, x) \<in> set (published (entries ''traefik'' False v))"
  using assms(2) unfolding ConfigToKV_Inr(3) [OF assms(1)]
  by (simp add: map_of_eq_Some_iff rev_map [symmetric])

section \<open>Every key lies below the root\<close>

lemma prefix_field_path: "field_path path f v = Some (p, a) \<Longrightarrow> prefix path p"
  by (auto simp: field_path_def joinPath_def Let_def split: prod.splits if_splits)

lemma prefix_entry_path: "prefix path (entry_path path k)"
  by (simp add: entry_path_def joinPath_def)

lemma prefix_index_path: "prefix path (index_path path i)"
  by (simp add: index_path_def)

lemma leaf_entries_path: "(p, s) \<in> set (leaf_entries path v) \<Longrightarrow> p = path"
  by (auto simp: leaf_entries_def split: sum.splits prod.splits bool.splits)

lemma entries_prefix: "(p, s) \<in> set (entries path ae v) \<Longrightarrow> prefix path p"
proof (induction path ae v arbitrary: p s rule: entries.induct)
  case (4 path ae m fs)
  show ?case
  proof (cases "isLeafType (GStruct m fs)")
    case False
    with "4.prems" obtain f v where fv: "(f, v) \<in> set fs"
      and "(p, s) \<in> set (case field_path path f v of None \<Rightarrow> [] | Some (p, a) \<Rightarrow> entries p a v)"
      by auto
    then obtain q a where q: "field_path path f v = Some (q, a)" and "(p, s) \<in> set (entries q a v)"
      by (cases "field_path path f v") auto
    with fv "4.IH" False have "prefix q p" by blast
    with prefix_field_path [OF q] show ?thesis by (rule prefix_order.trans)
  qed (use "4.prems" in \<open>auto dest: leaf_entries_path\<close>)
next
  case (5 path ae m t es)
  show ?case
  proof (cases "isLeafType (GMap m t es)")
    case False
    with "5.prems" obtain es' k v where "es = Some es'" "(k, v) \<in> set es'"
      and "(p, s) \<in> set (entries (entry_path path k) False v)"
      by (auto split: option.splits)
    with "5.IH" False have "prefix (entry_path path k) p" by blast
    with prefix_entry_path show ?thesis by (rule prefix_order.trans)
  qed (use "5.prems" in \<open>auto dest: leaf_entries_path\<close>)
next
  case (6 path ae m xs)
  show ?case
  proof (cases "isLeafType (GSlice m xs)")
    case False
    with "6.prems" obtain ys i v where "xs = Some ys" "(i, v) \<in> set (enumerate 0 ys)"
      and "(p, s) \<in> set (entries (index_path path i) False v)"
      by (auto split: option.splits)
    with "6.IH" False have "prefix (index_path path i) p" by blast
    with prefix_index_path show ?thesis by (rule prefix_order.trans)
  qed (use "6.prems" in \<open>auto dest: leaf_entries_path\<close>)
next
  case (7 path ae m ys)
  show ?case
  proof (cases "isLeafType (GArray m ys)")
    case False
    with "7.prems" obtain i v where "(i, v) \<in> set (enumerate 0 ys)"
      and "(p, s) \<in> set (entries (index_path path i) False v)"
      by auto
    with "7.IH" False have "prefix (index_path path i) p" by blast
    with prefix_index_path show ?thesis by (rule prefix_order.trans)
  qed (use "7.prems" in \<open>auto dest: leaf_entries_path\<close>)
qed (auto split: option.splits if_splits dest: leaf_entries_path)

lemma Sprintf0_prefix: "CHR ''%'' \<notin> set a \<Longrightarrow> Sprintf0 (a @ b) = a @ Sprintf0 b"
  by (induction a) auto

lemma published_prefix:
  assumes "(k, x) \<in> set (published (entries path ae v))" and "CHR ''%'' \<notin> set path"
  shows "prefix path k"
proof -
  from assms(1) obtain p where p: "(p, x) \<in> set (entries path ae v)" "k = Sprintf0 p"
    by (auto simp: published_def)
  from entries_prefix [OF p(1)] obtain q where "p = path @ q" by (auto simp: prefix_def)
  with p(2) Sprintf0_prefix [OF assms(2)] show ?thesis by simp
qed

section \<open>The iteration order of maps\<close>

text \<open>
  \<open>reorder v w\<close>: the two trees are the same value, whose maps are visited in different orders.
\<close>

inductive reorder :: "gval \<Rightarrow> gval \<Rightarrow> bool" where
  same: "reorder v v"
| iface: "reorder v w \<Longrightarrow> reorder (GIface (Some v)) (GIface (Some w))"
| pointer: "reorder v w \<Longrightarrow> reorder (GPtr (Some v)) (GPtr (Some w))"
| struct: "list_all2 (\<lambda>x y. fst x = fst y \<and> reorder (snd x) (snd y)) fs gs \<Longrightarrow>
     reorder (GStruct m fs) (GStruct m gs)"
| mapping: "list_all2 (\<lambda>x y. fst x = fst y \<and> reorder (snd x) (snd y)) es es' \<Longrightarrow> mset es'' = mset es' \<Longrightarrow>
     reorder (GMap m t (Some es)) (GMap m t (Some es''))"
| slice: "list_all2 reorder xs ys \<Longrightarrow> reorder (GSlice m (Some xs)) (GSlice m (Some ys))"
| array: "list_all2 reorder xs ys \<Longrightarrow> reorder (GArray m xs) (GArray m ys)"

lemma reorder_isEmpty: "reorder v w \<Longrightarrow> isEmptyJSONValue v = isEmptyJSONValue w"
  by (induction rule: reorder.induct) (auto dest: list_all2_lengthD mset_eq_length)

lemma reorder_is_struct: "reorder v w \<Longrightarrow> is_struct v = is_struct w"
  by (induction rule: reorder.induct) auto

lemma field_path_cong: "isEmptyJSONValue v = isEmptyJSONValue w \<Longrightarrow> field_path p f v = field_path p f w"
  by (cases "jsonFieldName f") (simp add: field_path_def)

lemma leafString_marshaler:
  "marshaler_of v = marshaler_of w \<Longrightarrow> marshaler_of v \<noteq> NoMarshaler \<Longrightarrow> leafString v = leafString w"
  by (cases "marshaler_of w") (auto simp: leafString_def)

lemma mset_concat_all2:
  "list_all2 (\<lambda>x y. mset (f x) = mset (g y)) xs ys \<Longrightarrow>
    mset (concat (map f xs)) = mset (concat (map g ys))"
  by (induction xs ys rule: list_all2_induct) auto

lemma mset_concat_perm: "mset xs = mset ys \<Longrightarrow> mset (concat (map f xs)) = mset (concat (map f ys))"
proof -
  have "mset (concat (map f zs)) = sum_mset (image_mset (mset \<circ> f) (mset zs))" for zs
    by (induction zs) auto
  then show "mset xs = mset ys \<Longrightarrow> ?thesis" by simp
qed

lemma list_all2_enumerate:
  "list_all2 P xs ys \<Longrightarrow> list_all2 (\<lambda>(i, x) (j, y). i = j \<and> P x y) (enumerate n xs) (enumerate n ys)"
  by (induction xs ys arbitrary: n rule: list_all2_induct) auto

lemma mset_eq_Nil: "mset xs = mset ys \<Longrightarrow> xs = [] \<longleftrightarrow> ys = []"
  by (metis mset_zero_iff)

text \<open>The order of the maps does not change which pairs a tree denotes.\<close>

lemma entries_reorder: "reorder v w \<Longrightarrow> mset (entries path ae v) = mset (entries path ae w)"
proof (induction arbitrary: path ae rule: reorder.induct)
  case (pointer v w)
  from pointer(2) [of path False] have "entries path False v = [] \<longleftrightarrow> entries path False w = []"
    by (rule mset_eq_Nil)
  with pointer(2) reorder_is_struct [OF pointer(1)] show ?case by simp
next
  case (struct fs gs m)
  have "list_all2 (\<lambda>x y. mset (case x of (f, v) \<Rightarrow> case field_path path f v of
            None \<Rightarrow> [] | Some (p, a) \<Rightarrow> entries p a v)
          = mset (case y of (f, v) \<Rightarrow> case field_path path f v of
            None \<Rightarrow> [] | Some (p, a) \<Rightarrow> entries p a v)) fs gs"
    using struct
    by (rule list_all2_mono)
       (auto simp: field_path_cong [OF reorder_isEmpty] split: option.splits)
  from mset_concat_all2 [OF this] show ?case
    by (auto simp: isLeafType_def leaf_entries_def leafString_marshaler [of "GStruct m fs" "GStruct m gs"])
next
  case (mapping es es' es'' m t)
  have "list_all2 (\<lambda>x y. mset (case x of (k, v) \<Rightarrow> entries (entry_path path k) False v)
          = mset (case y of (k, v) \<Rightarrow> entries (entry_path path k) False v)) es es'"
    using mapping(1) by (rule list_all2_mono) auto
  from mset_concat_all2 [OF this] mset_concat_perm [OF mapping(2) [symmetric]] show ?case
    by (auto simp: isLeafType_def leaf_entries_def
        leafString_marshaler [of "GMap m t (Some es)" "GMap m t (Some es'')"])
next
  case (slice xs ys m)
  have "list_all2 (\<lambda>x y. mset (case x of (i, v) \<Rightarrow> entries (index_path path i) False v)
          = mset (case y of (i, v) \<Rightarrow> entries (index_path path i) False v))
        (enumerate 0 xs) (enumerate 0 ys)"
    using list_all2_enumerate [OF slice] by (rule list_all2_mono) auto
  from mset_concat_all2 [OF this] show ?case
    by (auto simp: isLeafType_def leaf_entries_def
        leafString_marshaler [of "GSlice m (Some xs)" "GSlice m (Some ys)"])
next
  case (array xs ys m)
  have "list_all2 (\<lambda>x y. mset (case x of (i, v) \<Rightarrow> entries (index_path path i) False v)
          = mset (case y of (i, v) \<Rightarrow> entries (index_path path i) False v))
        (enumerate 0 xs) (enumerate 0 ys)"
    using list_all2_enumerate [OF array] by (rule list_all2_mono) auto
  from mset_concat_all2 [OF this] show ?case
    by (auto simp: isLeafType_def leaf_entries_def leafString_marshaler [of "GArray m xs" "GArray m ys"])
qed auto

lemma published_reorder:
  assumes "reorder v w"
  shows "mset (published (entries p ae v)) = mset (published (entries p ae w))"
  using entries_reorder [OF assms, of p ae] by (simp add: published_def)

lemma ConfigToKV_reorder_same:
  assumes "reorder v w" and "ConfigToKV v = Inr m" and "ConfigToKV w = Inr m'"
    and "distinct (keys_of (published (entries ''traefik'' False v)))"
  shows "map_of m = map_of m'"
proof -
  let ?p = "\<lambda>v. published (entries ''traefik'' False v)"
  have ms: "mset (?p v) = mset (?p w)" by (rule published_reorder) (rule assms(1))
  then have "mset (keys_of (?p v)) = mset (keys_of (?p w))" by simp
  with assms(4) have "distinct (keys_of (?p w))" using mset_eq_imp_distinct_iff by blast
  with assms(4) ms have "map_of (rev (?p v)) = map_of (rev (?p w))"
    by (intro map_of_inject_set [THEN iffD2]) (auto simp: rev_map [symmetric] dest: mset_eq_setD)
  with ConfigToKV_Inr(3) assms(2,3) show ?thesis by metis
qed

lemma list_all2_list_all:
  "list_all2 (\<lambda>x y. P x = Q y) xs ys \<Longrightarrow> list_all P xs = list_all Q ys"
  by (induction xs ys rule: list_all2_induct) auto

lemma list_all_mset: "mset xs = mset ys \<Longrightarrow> list_all P xs = list_all P ys"
  by (metis list_all_iff set_mset_mset)

lemma leaf_ok_marshaler:
  "marshaler_of v = marshaler_of w \<Longrightarrow> marshaler_of v \<noteq> NoMarshaler \<Longrightarrow> leaf_ok v = leaf_ok w"
  using leafString_marshaler [of v w] by (simp add: leaf_ok_def)

lemma walkable_reorder: "reorder v w \<Longrightarrow> walkable v = walkable w"
proof (induction rule: reorder.induct)
  case (struct fs gs m)
  have "list_all2 (\<lambda>x y. (case x of (f, v) \<Rightarrow> field_path [] f v = None \<or> walkable v)
      = (case y of (f, v) \<Rightarrow> field_path [] f v = None \<or> walkable v)) fs gs"
    using struct by (rule list_all2_mono) (auto simp: field_path_cong [OF reorder_isEmpty])
  from list_all2_list_all [OF this] show ?case
    by (auto simp: isLeafType_def leaf_ok_marshaler [of "GStruct m fs" "GStruct m gs"])
next
  case (mapping es es' es'' m t)
  have "list_all2 (\<lambda>x y. (case x of (k, v) \<Rightarrow> walkable v) = (case y of (k, v) \<Rightarrow> walkable v)) es es'"
    using mapping(1) by (rule list_all2_mono) auto
  from list_all2_list_all [OF this] list_all_mset [OF mapping(2)]
  have "list_all (\<lambda>(k, v). walkable v) es = list_all (\<lambda>(k, v). walkable v) es''" by simp
  moreover have "es = [] \<longleftrightarrow> es'' = []"
    using list_all2_lengthD [OF mapping(1)] mset_eq_length [OF mapping(2)] by auto
  ultimately show ?case
    by (auto simp: isLeafType_def leaf_ok_marshaler [of "GMap m t (Some es)" "GMap m t (Some es'')"])
next
  case (slice xs ys m)
  then have "list_all2 (\<lambda>x y. walkable x = walkable y) xs ys" by (rule list_all2_mono) simp
  from list_all2_list_all [OF this] show ?case
    by (auto simp: isLeafType_def leaf_ok_marshaler [of "GSlice m (Some xs)" "GSlice m (Some ys)"])
next
  case (array xs ys m)
  then have "list_all2 (\<lambda>x y. walkable x = walkable y) xs ys" by (rule list_all2_mono) simp
  from list_all2_list_all [OF this] show ?case
    by (auto simp: isLeafType_def leaf_ok_marshaler [of "GArray m xs" "GArray m ys"])
qed auto

section \<open>Properties\<close>

text \<open>A small configuration: two routers, one with an empty TLS block, and a TLS option.\<close>

definition plain_field :: "string \<Rightarrow> string \<Rightarrow> string \<Rightarrow> field_info" where
  "plain_field n j l = \<lparr>fld_name = n, fld_PkgPath = [], fld_Anonymous = False, fld_json = j, fld_label = l\<rparr>"

definition sample_router :: "string \<Rightarrow> gval option \<Rightarrow> gval" where
  "sample_router svc tls = GPtr (Some (GStruct NoMarshaler
     [(plain_field ''Service'' ''service,omitempty'' [], GString NoMarshaler svc),
      (plain_field ''TLS'' ''tls,omitempty'' ''allowEmpty'', GPtr tls)]))"

definition sample_conf :: "(string \<times> gval) list \<Rightarrow> gval" where
  "sample_conf routers = GStruct NoMarshaler
     [(plain_field ''HTTP'' ''http,omitempty'' [], GPtr (Some (GStruct NoMarshaler
         [(plain_field ''Routers'' ''routers,omitempty'' [], GMap NoMarshaler None (Some routers))]))),
      (plain_field ''TLS'' ''tls,omitempty'' [], GPtr (Some (GStruct NoMarshaler
         [(plain_field ''Options'' ''options'' [],
           GMap NoMarshaler None (Some [(''default'', GBool NoMarshaler True)]))])))]"

definition sample_routers :: "(string \<times> gval) list" where
  "sample_routers = [(''nginx@docker'', sample_router ''web'' (Some (GStruct NoMarshaler []))),
                     (''api@docker'', sample_router ''api'' None)]"

text \<open>
  C5: \<open>ConfigToKV\<close> returns an error exactly when the walk meets a failing marshaler or a non-empty
  map whose keys are not strings; otherwise the map it returns holds exactly the pairs the
  configuration tree denotes (the last one written where two paths coincide): leaves by their
  text, empty \<open>allowEmpty\<close> pointers to structs as \<open>true\<close>, names of routers, services and
  middlewares without the \<open>@docker\<close> suffix, nothing below \<open>traefik/tls/\<close> and no empty values.
\<close>

theorem ConfigToKV_denotes:
  "case ConfigToKV v of
     Inl e \<Rightarrow> \<not> walkable v
   | Inr m \<Rightarrow> walkable v \<and> wf_map m
       \<and> map_of m = map_of (rev (published (entries ''traefik'' False v)))"
  by (rule ConfigToKV_cases)

text \<open>
  C32: every published pair has a non-empty value and a key below \<open>traefik\<close> that is not below
  \<open>traefik/tls/\<close> (TLS options are never published).
\<close>

theorem ConfigToKV_safe_keys:
  assumes "ConfigToKV v = Inr m" and "map_of m k = Some x"
  shows "x \<noteq> [] \<and> HasPrefix k ''traefik'' \<and> \<not> HasPrefix k ''traefik/tls/''"
proof -
  note e = ConfigToKV_entry [OF assms]
  have "HasPrefix k ''traefik''" by (rule published_prefix [OF e]) simp
  with e show ?thesis by (auto simp: published_def)
qed

theorem ConfigToKV_safe_keys_witness:
  "ConfigToKV (sample_conf sample_routers)
     = Inr [(''traefik/http/routers/nginx/service'', ''web''),
            (''traefik/http/routers/nginx/tls'', ''true''),
            (''traefik/http/routers/api/service'', ''api'')] \<and>
   ''web'' \<noteq> [] \<and> HasPrefix ''traefik/http/routers/nginx/service'' ''traefik''
     \<and> \<not> HasPrefix ''traefik/http/routers/nginx/service'' ''traefik/tls/''"
proof -
  have c: "ConfigToKV (sample_conf sample_routers)
     = Inr [(''traefik/http/routers/nginx/service'', ''web''),
            (''traefik/http/routers/nginx/tls'', ''true''),
            (''traefik/http/routers/api/service'', ''api'')]" by code_simp
  show ?thesis
    using c ConfigToKV_safe_keys [OF c, of "''traefik/http/routers/nginx/service''" "''web''"]
    by simp
qed




end
