(* ===== verification/Dynamic.thy ===== *)
theory Dynamic
  imports KV
begin

text \<open>
  The part of traefik's dynamic configuration that traefik-kop reads or writes. The types belong
  to the traefik package; a record names the fields the program uses, and a \<open>rest\<close> field carries
  the reflected remainder, which the program only passes on (\<open>None\<close> is the zero value of the
  remainder of a server). A nil pointer is \<open>None\<close>.

  Services and routers are held by pointers in maps. No two names share a pointer (the docker
  provider allocates one per name), so the map holds the values themselves.
\<close>

record router =
  rt_Service :: string
  rt_EntryPoints :: "string list"
  rt_rest :: gval

record http_server =
  srv_URL :: string
  srv_Scheme :: string
  srv_Port :: string
  srv_rest :: "gval option"

text \<open>\<open>TCPServer\<close> and \<open>UDPServer\<close>.\<close>

record l4_server =
  l4_Address :: string
  l4_Port :: string
  l4_rest :: "gval option"

record 'srv load_balancer =
  lb_Servers :: "'srv list"
  lb_rest :: gval

record 'srv service =
  LoadBalancer :: "'srv load_balancer option"
  svc_rest :: gval

type_synonym router_map = "(string, router option) gomap"
type_synonym 'srv service_map = "(string, 'srv service option) gomap"

record 'srv proto =
  Routers :: router_map
  Services :: "'srv service_map"
  Middlewares :: "(string, gval) gomap"
  proto_rest :: gval

record configuration =
  HTTP :: "http_server proto option"
  TCP :: "l4_server proto option"
  UDP :: "l4_server proto option"
  conf_rest :: gval

text \<open>A section with distinct names and no nil routers.\<close>

definition wf_proto :: "'srv proto \<Rightarrow> bool" where
  "wf_proto p \<longleftrightarrow> wf_map (Routers p) \<and> wf_map (Services p) \<and> wf_map (Middlewares p)
     \<and> list_all (\<lambda>(_, r). r \<noteq> None) (Routers p)"

definition wf_section :: "'srv proto option \<Rightarrow> bool" where
  "wf_section s = (case s of None \<Rightarrow> True | Some p \<Rightarrow> wf_proto p)"

definition wf_configuration :: "configuration \<Rightarrow> bool" where
  "wf_configuration conf \<longleftrightarrow>
     wf_section (HTTP conf) \<and> wf_section (TCP conf) \<and> wf_section (UDP conf)"

definition services :: "'srv proto option \<Rightarrow> 'srv service_map" where
  "services s = (case s of None \<Rightarrow> [] | Some p \<Rightarrow> Services p)"

definition routers :: "'srv proto option \<Rightarrow> router_map" where
  "routers s = (case s of None \<Rightarrow> [] | Some p \<Rightarrow> Routers p)"

definition middlewares :: "'srv proto option \<Rightarrow> (string, gval) gomap" where
  "middlewares s = (case s of None \<Rightarrow> [] | Some p \<Rightarrow> Middlewares p)"

lemma section_simps [simp]:
  "services None = []" "services (Some p) = Services p"
  "routers None = []" "routers (Some p) = Routers p"
  "middlewares None = []" "middlewares (Some p) = Middlewares p"
  "wf_section None" "wf_section (Some p) = wf_proto p"
  by (simp_all add: services_def routers_def middlewares_def wf_section_def)

end
