(* ===== verification/Resolve.thy ===== *)
theory Resolve
  imports Docker Dynamic
begin

text \<open>
  From a traefik service to its container, and from the container to the port and the IP that
  are published (\<^verbatim>\<open>traefik_kop.go\<close>, \<open>getRouterOfService\<close> to \<open>getKopOverrideBinding\<close>).

  The four functions of the source begin with the same two calls, here \<open>serviceContainer\<close>; what
  they read from the container is a function of the container alone (\<open>containerPort\<close>,
  \<open>networkIP\<close>, \<open>overrideIP\<close>).

  \<open>resolves D conf svcType svcName ow\<close> says that the loaded containers \<open>D\<close> determine the
  container of a service (or that it has none), whatever order Go visits the maps in. In a settled
  world the lookups then compute exactly that.
\<close>

section \<open>Routers\<close>

definition routers_of :: "string \<Rightarrow> configuration \<Rightarrow> router_map option" where
  "routers_of svcType conf =
     (if svcType = ''http'' then map_option Routers (HTTP conf)
      else if svcType = ''tcp'' then map_option Routers (TCP conf)
      else if svcType = ''udp'' then map_option Routers (UDP conf)
      else Some [])"

fun find_router :: "string \<Rightarrow> router_map \<Rightarrow> string option" where
  "find_router svcName [] = Some []"
| "find_router svcName ((routerName, router) # rs) = do {
     r \<leftarrow> router;
     if rt_Service r = svcName then Some routerName else find_router svcName rs
   }"

definition getRouterOfService
  :: "configuration \<Rightarrow> string \<Rightarrow> string \<Rightarrow> world \<Rightarrow> (string \<times> world) option" where
  "getRouterOfService conf svcName svcType w = do {
     let svcName = stripDocker svcName;
     rs \<leftarrow> routers_of svcType conf;
     let (seed, w) = next_seed w;
     name \<leftarrow> find_router svcName (permute seed rs);
     Some (name, w)
   }"

definition serviceContainer :: "configuration \<Rightarrow> string \<Rightarrow> string \<Rightarrow> world
    \<Rightarrow> ((string + inspect_response) \<times> world) option" where
  "serviceContainer conf svcType svcName w = do {
     (routerName, w) \<leftarrow> getRouterOfService conf svcName svcType w;
     findContainerByServiceName svcType svcName routerName w
   }"

section \<open>Ports and addresses\<close>

definition containerPort :: "inspect_response \<Rightarrow> string \<Rightarrow> string \<Rightarrow> string \<Rightarrow> string option" where
  "containerPort container svcType svcName port = do {
     explicitPort \<leftarrow> isPortSet container svcType svcName;
     let port = (if explicitPort \<noteq> [] then explicitPort else port);
     p \<leftarrow> getServicePortBinding container svcType port;
     if p \<noteq> [] then Some p
     else if explicitPort \<noteq> [] then Some explicitPort
     else do {
       r \<leftarrow> getPortBinding container;
       Some (case r of
               Inl err \<Rightarrow> port
             | Inr exposedPort \<Rightarrow> if exposedPort = [] then port else exposedPort)
     }
   }"

definition getContainerPort :: "configuration \<Rightarrow> string \<Rightarrow> string \<Rightarrow> string \<Rightarrow> world
    \<Rightarrow> (string \<times> world) option" where
  "getContainerPort conf svcType svcName port w = do {
     (r, w) \<leftarrow> serviceContainer conf svcType svcName w;
     case r of
       Inl err \<Rightarrow> Some (port, w)
     | Inr container \<Rightarrow> do { p \<leftarrow> containerPort container svcType svcName port; Some (p, w) }
   }"

definition networkIP :: "inspect_response \<Rightarrow> string \<Rightarrow> string option" where
  "networkIP container hostIP = do {
     cfg \<leftarrow> Config container;
     let networkName = get_str (Labels cfg) ''traefik.docker.network'';
     Some (if networkName = [] then hostIP
           else (case NetworkSettings container of
                   None \<Rightarrow> hostIP
                 | Some n \<Rightarrow> (case map_of (Networks n) networkName of
                     Some (Some endpoint) \<Rightarrow> IPAddress endpoint
                   | _ \<Rightarrow> hostIP)))
   }"

definition getContainerNetworkIP :: "configuration \<Rightarrow> string \<Rightarrow> string \<Rightarrow> string \<Rightarrow> world
    \<Rightarrow> (string \<times> world) option" where
  "getContainerNetworkIP conf svcType svcName hostIP w = do {
     (r, w) \<leftarrow> serviceContainer conf svcType svcName w;
     case r of
       Inl err \<Rightarrow> Some (hostIP, w)
     | Inr container \<Rightarrow> do { ip \<leftarrow> networkIP container hostIP; Some (ip, w) }
   }"

definition overrideIP :: "inspect_response \<Rightarrow> string \<Rightarrow> string \<Rightarrow> (string \<times> bool) option" where
  "overrideIP container svcName hostIP = do {
     cfg \<leftarrow> Config container;
     let own = get_str (Labels cfg) (''kop.'' @ stripDocker svcName @ ''.bind.ip'');
     let shared = get_str (Labels cfg) ''kop.bind.ip'';
     Some (if own \<noteq> [] then (own, True) else if shared \<noteq> [] then (shared, True) else (hostIP, False))
   }"

definition getKopOverrideBinding :: "configuration \<Rightarrow> string \<Rightarrow> string \<Rightarrow> string \<Rightarrow> world
    \<Rightarrow> ((string \<times> bool) \<times> world) option" where
  "getKopOverrideBinding conf svcType svcName hostIP w = do {
     (r, w) \<leftarrow> serviceContainer conf svcType svcName w;
     case r of
       Inl err \<Rightarrow> Some ((hostIP, False), w)
     | Inr container \<Rightarrow> do { b \<leftarrow> overrideIP container svcName hostIP; Some (b, w) }
   }"

section \<open>The container of a service\<close>

text \<open>The router names \<open>getRouterOfService\<close> may return.\<close>

definition serves :: "string \<Rightarrow> router option \<Rightarrow> bool" where
  "serves svcName router = (case router of None \<Rightarrow> False | Some r \<Rightarrow> rt_Service r = svcName)"

definition serving :: "string \<Rightarrow> router_map \<Rightarrow> string list" where
  "serving svcName rs = keys_of (filter (\<lambda>(_, r). serves svcName r) rs)"

definition router_choices :: "configuration \<Rightarrow> string \<Rightarrow> string \<Rightarrow> string list" where
  "router_choices conf svcType svcName =
     (case routers_of svcType conf of
        None \<Rightarrow> [[]]
      | Some rs \<Rightarrow> let ns = serving (stripDocker svcName) rs in if ns = [] then [[]] else ns)"

lemma find_router_choice:
  "find_router s rs = Some n \<Longrightarrow> n \<in> set (serving s rs) \<or> n = [] \<and> serving s rs = []"
  by (induction s rs rule: find_router.induct)
     (auto simp: bind_eq_Some_conv serving_def serves_def split: if_splits)

lemma find_router_permute:
  assumes "find_router s (permute seed rs) = Some n"
  shows "n \<in> set (if serving s rs = [] then [[]] else serving s rs)"
proof -
  have same: "set (serving s (permute seed rs)) = set (serving s rs)" by (simp add: serving_def)
  from find_router_choice [OF assms] show ?thesis
  proof
    assume "n \<in> set (serving s (permute seed rs))"
    then have n: "n \<in> set (serving s rs)" by (simp only: same)
    then have "serving s rs \<noteq> []" by force
    then show ?thesis using n by (simp only: if_False)
  next
    assume n: "n = [] \<and> serving s (permute seed rs) = []"
    then have "set (serving s rs) = {}" unfolding same [symmetric] by simp
    then show ?thesis using n by simp
  qed
qed

lemma find_router_total:
  "list_all (\<lambda>(_, r). r \<noteq> None) rs \<Longrightarrow> \<exists>n. find_router s rs = Some n"
  by (induction s rs rule: find_router.induct) auto

definition routers_ok :: "string \<Rightarrow> configuration \<Rightarrow> bool" where
  "routers_ok svcType conf =
     (case routers_of svcType conf of None \<Rightarrow> False | Some rs \<Rightarrow> list_all (\<lambda>(_, r). r \<noteq> None) rs)"

lemma getRouterOfService_choice:
  assumes "routers_ok svcType conf"
  shows "\<exists>n w'. getRouterOfService conf svcName svcType w = Some (n, w')
    \<and> n \<in> set (router_choices conf svcType svcName) \<and> later w w' \<and> w_cache w' = w_cache w"
proof -
  obtain rs where rs: "routers_of svcType conf = Some rs" "list_all (\<lambda>(_, r). r \<noteq> None) rs"
    using assms by (auto simp: routers_ok_def split: option.splits)
  obtain seed w' where s: "next_seed w = (seed, w')" by fastforce
  have "list_all (\<lambda>(_, r). r \<noteq> None) (permute seed rs)" using rs(2) by (simp add: list_all_iff)
  then obtain n where n: "find_router (stripDocker svcName) (permute seed rs) = Some n"
    using find_router_total by blast
  have "n \<in> set (router_choices conf svcType svcName)"
    using find_router_permute [OF n] rs(1) by (simp add: router_choices_def Let_def)
  moreover have "getRouterOfService conf svcName svcType w = Some (n, w')"
    using n rs(1) s by (simp add: getRouterOfService_def Let_def)
  ultimately show ?thesis using next_seed_later [OF s] by blast
qed

definition owner_among :: "(string, inspect_response) gomap \<Rightarrow> string \<Rightarrow> string \<Rightarrow> string
    \<Rightarrow> inspect_response option \<Rightarrow> bool" where
  "owner_among D svcType svcName routerName ow =
     (case ow of
        None \<Rightarrow> \<forall>c \<in> snd ` set D. \<not> labelled (service_matches svcType svcName routerName) c
      | Some c \<Rightarrow> c \<in> snd ` set D \<and> labelled (service_matches svcType svcName routerName) c
          \<and> (\<forall>c' \<in> snd ` set D. labelled (service_matches svcType svcName routerName) c' \<longrightarrow> c' = c))"

definition resolves :: "(string, inspect_response) gomap \<Rightarrow> configuration \<Rightarrow> string \<Rightarrow> string
    \<Rightarrow> inspect_response option \<Rightarrow> bool" where
  "resolves D conf svcType svcName ow \<longleftrightarrow>
     routers_ok svcType conf
     \<and> (\<forall>n \<in> set (router_choices conf svcType svcName). owner_among D svcType svcName n ow)"

definition agrees :: "inspect_response option \<Rightarrow> string + inspect_response \<Rightarrow> bool" where
  "agrees ow r = (case ow of None \<Rightarrow> \<exists>e. r = Inl e | Some c \<Rightarrow> r = Inr c)"

lemma find_owner:
  assumes "settled D w" and "owner_among D svcType svcName routerName ow"
  shows "\<exists>r w'. findContainerByServiceName svcType svcName routerName w = Some (r, w')
    \<and> settled D w' \<and> agrees ow r"
proof (cases ow)
  case None
  then have "\<And>c. c \<in> snd ` set D \<Longrightarrow> \<not> labelled (service_matches svcType svcName routerName) c"
    using assms(2) by (auto simp: owner_among_def)
  from dc.lookup_absent [OF assms(1) this] None show ?thesis by (auto simp: agrees_def)
next
  case (Some c)
  with assms(2) have c: "c \<in> snd ` set D" "labelled (service_matches svcType svcName routerName) c"
    and u: "\<And>c'. c' \<in> snd ` set D \<Longrightarrow> labelled (service_matches svcType svcName routerName) c' \<Longrightarrow> c' = c"
    by (auto simp: owner_among_def)
  from dc.lookup_unique [OF assms(1) c u] Some show ?thesis by (auto simp: agrees_def)
qed

lemma serviceContainer_resolves:
  assumes "settled D w" and "resolves D conf svcType svcName ow"
  shows "\<exists>r w'. serviceContainer conf svcType svcName w = Some (r, w') \<and> settled D w' \<and> agrees ow r"
proof -
  obtain n w1 where 1: "getRouterOfService conf svcName svcType w = Some (n, w1)"
    "n \<in> set (router_choices conf svcType svcName)" "later w w1" "w_cache w1 = w_cache w"
    using getRouterOfService_choice assms(2) unfolding resolves_def by blast
  have "settled D w1" using settled_later [OF assms(1) 1(3,4)] .
  moreover have "owner_among D svcType svcName n ow" using assms(2) 1(2) by (simp add: resolves_def)
  ultimately obtain r w2 where "findContainerByServiceName svcType svcName n w1 = Some (r, w2)"
    "settled D w2" "agrees ow r" using find_owner by blast
  with 1(1) show ?thesis by (auto simp: serviceContainer_def)
qed

text \<open>A container found in a settled world has its Config and its base.\<close>

lemma resolves_normal:
  assumes "settled D w" and "resolves D conf svcType svcName (Some c)"
  shows "normal_container c"
proof -
  have "router_choices conf svcType svcName \<noteq> []" by (simp add: router_choices_def Let_def split: option.split)
  then have "c \<in> snd ` set D" using assms(2)
    by (auto simp: resolves_def owner_among_def neq_Nil_conv)
  with assms(1) show ?thesis by (rule settled_normal)
qed

lemma normal_Config: "normal_container c \<Longrightarrow> Config c = Some \<lparr>Labels = container_labels c\<rparr>"
  by (auto simp: normal_container_def labels_normal_def container_labels_def)

section \<open>What the resolution functions compute\<close>

text \<open>The explicit port label, the network address and the override label of a container.\<close>

definition label_of :: "inspect_response \<Rightarrow> string \<Rightarrow> string" where
  "label_of c k = get_str (container_labels c) k"

definition port_label :: "string \<Rightarrow> string \<Rightarrow> string" where
  "port_label svcType svcName =
     ''traefik.'' @ svcType @ ''.services.'' @ stripDocker svcName @ ''.loadbalancer.server.port''"

definition network_address :: "inspect_response \<Rightarrow> string option" where
  "network_address c =
     (if label_of c ''traefik.docker.network'' = [] then None
      else case NetworkSettings c of
             None \<Rightarrow> None
           | Some n \<Rightarrow> (case map_of (Networks n) (label_of c ''traefik.docker.network'') of
               Some (Some e) \<Rightarrow> Some (IPAddress e) | _ \<Rightarrow> None))"

definition bind_label :: "inspect_response \<Rightarrow> string \<Rightarrow> string option" where
  "bind_label c svcName =
     (let own = label_of c (''kop.'' @ stripDocker svcName @ ''.bind.ip''); shared = label_of c ''kop.bind.ip''
      in if own \<noteq> [] then Some own else if shared \<noteq> [] then Some shared else None)"

lemma networkIP_eq:
  "normal_container c \<Longrightarrow>
     networkIP c ip = Some (case network_address c of None \<Rightarrow> ip | Some a \<Rightarrow> a)"
  by (simp add: networkIP_def network_address_def label_of_def Let_def normal_Config
      split: option.splits)

lemma overrideIP_eq:
  "normal_container c \<Longrightarrow>
     overrideIP c svcName ip
       = Some (case bind_label c svcName of None \<Rightarrow> (ip, False) | Some a \<Rightarrow> (a, True))"
  by (simp add: overrideIP_def bind_label_def label_of_def Let_def normal_Config)

lemma isPortSet_eq:
  "normal_container c \<Longrightarrow> isPortSet c svcType svcName = Some (label_of c (port_label svcType svcName))"
  by (simp add: isPortSet_def label_of_def port_label_def normal_Config)

text \<open>
  The published port: the host port bound to the labelled port (or to traefik's), else the label
  itself, else the only bound host port, else traefik's port. \<open>None\<close> is a panic.
\<close>

definition host_port :: "inspect_response \<Rightarrow> string \<Rightarrow> string \<Rightarrow> string" where
  "host_port c svcType port = (case getServicePortBinding c svcType port of None \<Rightarrow> [] | Some p \<Rightarrow> p)"

lemma getServicePortBinding_total:
  "normal_container c \<Longrightarrow> getServicePortBinding c svcType port = Some (host_port c svcType port)"
  by (auto simp: normal_container_def host_port_def getServicePortBinding_def Let_def)

lemma containerPort_eq:
  assumes "normal_container c"
  shows "containerPort c svcType svcName port =
    (let l = label_of c (port_label svcType svcName); q = (if l \<noteq> [] then l else port)
     in if host_port c svcType q \<noteq> [] then Some (host_port c svcType q)
        else if l \<noteq> [] then Some l
        else map_option (\<lambda>r. case r of Inl _ \<Rightarrow> port | Inr p \<Rightarrow> p) (getPortBinding c))"
  using assms getPortBinding_nonempty [of c]
  by (auto simp: containerPort_def isPortSet_eq getServicePortBinding_total Let_def
      split: option.splits sum.splits bind_splits)

text \<open>Without a container a service keeps traefik's port and the address of the host.\<close>

definition resolved_port :: "inspect_response option \<Rightarrow> string \<Rightarrow> string \<Rightarrow> string \<Rightarrow> string option" where
  "resolved_port ow svcType svcName port =
     (case ow of None \<Rightarrow> Some port | Some c \<Rightarrow> containerPort c svcType svcName port)"

definition resolved_network :: "inspect_response option \<Rightarrow> string \<Rightarrow> string" where
  "resolved_network ow ip =
     (case ow of None \<Rightarrow> ip | Some c \<Rightarrow> (case network_address c of None \<Rightarrow> ip | Some a \<Rightarrow> a))"

definition resolved_bind :: "inspect_response option \<Rightarrow> string \<Rightarrow> string \<Rightarrow> string \<times> bool" where
  "resolved_bind ow svcName ip =
     (case ow of None \<Rightarrow> (ip, False)
      | Some c \<Rightarrow> (case bind_label c svcName of None \<Rightarrow> (ip, False) | Some a \<Rightarrow> (a, True)))"

lemma getContainerPort_resolved:
  assumes "settled D w" and "resolves D conf svcType svcName ow"
  shows "\<exists>w'. settled D w' \<and> getContainerPort conf svcType svcName port w
    = map_option (\<lambda>p. (p, w')) (resolved_port ow svcType svcName port)"
proof -
  obtain r w' where "serviceContainer conf svcType svcName w = Some (r, w')" "settled D w'" "agrees ow r"
    using serviceContainer_resolves [OF assms] by blast
  then show ?thesis
    by (cases ow) (auto simp: getContainerPort_def resolved_port_def agrees_def map_option_case
        intro!: exI [of _ w'] split: option.splits bind_splits)
qed

lemma getContainerNetworkIP_resolved:
  assumes "settled D w" and "resolves D conf svcType svcName ow"
  shows "\<exists>w'. settled D w' \<and>
    getContainerNetworkIP conf svcType svcName ip w = Some (resolved_network ow ip, w')"
proof -
  obtain r w' where "serviceContainer conf svcType svcName w = Some (r, w')" "settled D w'" "agrees ow r"
    using serviceContainer_resolves [OF assms] by blast
  then show ?thesis
    using resolves_normal [OF assms(1)] assms(2)
    by (cases ow) (auto simp: getContainerNetworkIP_def resolved_network_def agrees_def networkIP_eq
        split: option.splits)
qed

lemma getKopOverrideBinding_resolved:
  assumes "settled D w" and "resolves D conf svcType svcName ow"
  shows "\<exists>w'. settled D w' \<and>
    getKopOverrideBinding conf svcType svcName ip w = Some (resolved_bind ow svcName ip, w')"
proof -
  obtain r w' where "serviceContainer conf svcType svcName w = Some (r, w')" "settled D w'" "agrees ow r"
    using serviceContainer_resolves [OF assms] by blast
  then show ?thesis
    using resolves_normal [OF assms(1)] assms(2)
    by (cases ow) (auto simp: getKopOverrideBinding_def resolved_bind_def agrees_def overrideIP_eq
        split: option.splits)
qed

end
