(* ===== verification/Samples.thy ===== *)
theory Samples
  imports Resolve
begin

text \<open>
  A small docker host and a small traefik configuration, used to show that the hypotheses of the
  properties can hold: one container that publishes port 80 on host port 8080 and is attached to
  the network \<open>net\<close>, and a configuration with one HTTP router and one HTTP service.
\<close>

definition sample_container :: "string \<Rightarrow> labels \<Rightarrow> inspect_response" where
  "sample_container i l = \<lparr>
     Base = Some \<lparr>ctr_ID = i, ctr_Name = i,
       ctr_HostConfig = Some \<lparr>PortBindings = [(''80/tcp'', [\<lparr>HostPort = ''8080''\<rparr>])]\<rparr>\<rparr>,
     Config = Some \<lparr>Labels = l\<rparr>,
     NetworkSettings = Some \<lparr>Ports = [(''80/tcp'', [\<lparr>HostPort = ''8080''\<rparr>])],
       Networks = [(''net'', Some \<lparr>IPAddress = ''10.1.1.1''\<rparr>)]\<rparr>\<rparr>"

definition web_labels :: labels where
  "web_labels = [(''traefik.http.services.web.loadbalancer.server.port'', ''80'')]"

definition sample_client :: "(string, inspect_response) gomap \<Rightarrow> docker_client" where
  "sample_client D = \<lparr>
     ContainerList = (\<lambda>_. (Some (map (\<lambda>(i, c). \<lparr>sum_ID = i, sum_Labels = container_labels c\<rparr>) D), None)),
     ContainerInspect = (\<lambda>_ i. case map_of D i of None \<Rightarrow> Inl ''no such container'' | Some c \<Rightarrow> Inr c)\<rparr>"

text \<open>A host whose cache is loaded, with a clock that stands still.\<close>

definition sample_world :: "(string, inspect_response) gomap \<Rightarrow> world" where
  "sample_world D = \<lparr>w_now = (\<lambda>_. 0), w_seed = (\<lambda>_. 0), w_tick = 0,
     w_cache = \<lparr>dc_client = sample_client D,
       dc_list = Some (map (\<lambda>(i, c). \<lparr>sum_ID = i, sum_Labels = container_labels c\<rparr>) D),
       dc_details = D, dc_expires = 0\<rparr>\<rparr>"

lemma sample_settled:
  assumes "wf_map D" and "list_all (\<lambda>(_, c). normal_container c) D"
  shows "settled D (sample_world D)"
  using assms
  by (auto simp: settled_def loaded_def sample_world_def brisk_def cache_ttl_def second_def intro: rev_image_eqI)

definition sample_section :: "(string, 'srv service option) gomap \<Rightarrow> router_map \<Rightarrow> 'srv proto" where
  "sample_section svcs rs = \<lparr>Routers = rs, Services = svcs, Middlewares = [], proto_rest = GInvalid\<rparr>"

definition sample_service :: "'srv list \<Rightarrow> 'srv service option" where
  "sample_service servers = Some \<lparr>LoadBalancer = Some \<lparr>lb_Servers = servers, lb_rest = GInvalid\<rparr>, svc_rest = GInvalid\<rparr>"

definition web_routers :: router_map where
  "web_routers = [(''web@docker'', Some \<lparr>rt_Service = ''web'', rt_EntryPoints = [], rt_rest = GInvalid\<rparr>)]"

definition url_server :: "string \<Rightarrow> http_server" where
  "url_server u = \<lparr>srv_URL = u, srv_Scheme = [], srv_Port = [], srv_rest = None\<rparr>"

definition address_server :: "string \<Rightarrow> l4_server" where
  "address_server a = \<lparr>l4_Address = a, l4_Port = [], l4_rest = None\<rparr>"

definition sample_configuration :: "http_server list \<Rightarrow> configuration" where
  "sample_configuration servers = \<lparr>
     HTTP = Some (sample_section [(''web@docker'', sample_service servers)] web_routers),
     TCP = Some (sample_section [] []), UDP = Some (sample_section [] []), conf_rest = GInvalid\<rparr>"

definition web_conf :: configuration where
  "web_conf = sample_configuration [url_server ''http://172.17.0.2:80'']"

lemma wf_web_conf: "wf_configuration web_conf"
  by code_simp

definition web_host :: "labels \<Rightarrow> (string, inspect_response) gomap" where
  "web_host l = [(''c1'', sample_container ''c1'' (web_labels @ l)), (''c2'', sample_container ''c2'' [])]"

lemma web_host_settled: "settled (web_host []) (sample_world (web_host []))"
  by (rule sample_settled) code_simp+

lemma web_resolves: "resolves (web_host []) web_conf ''http'' ''web@docker'' (Some (sample_container ''c1'' web_labels))"
  by code_simp

end
