(* ===== verification/Lookup.thy ===== *)
theory Lookup
  imports Samples
begin

text \<open>
  The properties of the container lookup (\<^verbatim>\<open>docker.go\<close>) and of the resolution of a service to a port
  (\<^verbatim>\<open>traefik_kop.go\<close>): what a lookup finds, how old the cache may be, what a lookup may change, and
  which names are never found.
\<close>

section \<open>The cache\<close>

lemma populate_all_list:
  "populate_all cs w = Some (e, w') \<Longrightarrow> dc_list (w_cache w') = dc_list (w_cache w)"
proof (induction cs arbitrary: w)
  case (Cons c cs)
  then obtain e1 w1 where 1: "populate_one c w = Some (e1, w1)"
    "(if e1 \<noteq> None then Some (e1, w1) else populate_all cs w1) = Some (e, w')"
    by (auto simp: bind_eq_Some_conv)
  have "dc_list (w_cache w1) = dc_list (w_cache w)"
    using 1(1) by (auto simp: populate_one_def inspect_container_def next_seed_def set_details_def
        bind_eq_Some_conv Let_def split: option.splits sum.splits)
  with 1(2) Cons.IH show ?case by (auto split: if_splits)
qed simp



text \<open>
  C31: whatever the daemon answers and whatever the clock shows, a lookup that returns keeps the
  cache well formed: one entry per container ID and only lower-case, distinct label keys.
\<close>

theorem findContainer_keeps_cache:
  assumes "findContainerByServiceName svcType svcName routerName w = Some (r, w')" and "cache_inv w"
  shows "cache_inv w' \<and> dc_client (w_cache w') = dc_client (w_cache w) \<and> w_tick w \<le> w_tick w'"
  using find_inv [OF assms] by (simp add: later_def)

theorem findContainer_keeps_cache_witness:
  "\<exists>r w'. findContainerByServiceName ''http'' ''web'' [] (sample_world (web_host [])) = Some (r, w') \<and> cache_inv w'
    \<and> dc_client (w_cache w') = dc_client (w_cache (sample_world (web_host [])))
    \<and> w_tick (sample_world (web_host [])) \<le> w_tick w'"
proof -
  obtain r w' where r: "findContainerByServiceName ''http'' ''web'' [] (sample_world (web_host [])) = Some (r, w')"
    using dc.lookup_ready [OF web_host_settled] by blast
  from findContainer_keeps_cache [OF r settled_cache_inv [OF web_host_settled]] r show ?thesis by blast
qed

section \<open>Names with capital letters\<close>

text \<open>
  C35: label keys are lower-cased when they are cached, service and router names are not. A service
  whose name has a capital letter is therefore never found by its own labels; with no router, or a
  router whose name has a capital letter too, the lookup fails although the container is there.
\<close>

theorem findContainer_capitals:
  assumes "settled D w" and "\<exists>u \<in> set (stripDocker svcName). is_upper u"
    and "routerName = [] \<or> (\<exists>u \<in> set (stripDocker routerName). is_upper u)"
  shows "\<exists>e w'. findContainerByServiceName svcType svcName routerName w = Some (Inl e, w') \<and> settled D w'"
proof (rule dc.lookup_absent [OF assms(1)])
  fix c
  assume "c \<in> snd ` set D"
  then have "labels_normal c" using settled_normal [OF assms(1)] by (simp add: normal_container_def)
  moreover have "stripDocker routerName = [] \<or> (\<exists>u \<in> set (stripDocker routerName). is_upper u)"
    using assms(3) by auto
  ultimately show "\<not> labelled (service_matches svcType svcName routerName) c"
    using assms(2) by (intro upper_not_labelled)
qed

definition capital_host :: "(string, inspect_response) gomap" where
  "capital_host = [(''c1'', sample_container ''c1''
     (normalizeLabels 0 [(''traefik.http.services.Web.loadbalancer.server.port'', ''80'')]))]"

theorem findContainer_capitals_witness:
  "\<exists>e w'. findContainerByServiceName ''http'' ''Web@docker'' [] (sample_world capital_host) = Some (Inl e, w')
     \<and> settled capital_host w'"
proof (rule findContainer_capitals)
  show "settled capital_host (sample_world capital_host)" by (rule sample_settled) code_simp+
qed code_simp+

section \<open>The published port\<close>



end
