(* ===== verification/Proxy.thy ===== *)
theory Proxy
  imports Samples
begin

text \<open>
  The in-process docker proxy, \<^verbatim>\<open>docker_proxy.go\<close>. It stands between the docker daemon and the two
  docker clients of the program, takes the label prefix off the labels it passes on, and hides the
  containers that traefik-kop would not expose.

  The docker client (\<open>upstream\<close>), the decoding of the \<open>filters\<close> parameter and the path matching of the
  HTTP framework are third-party code and arguments of the model. Every request happens at a tick;
  at each tick the daemon may answer differently. A reply is the value the handler encodes; labels
  are Go maps, visited in the order of a seed. The event stream is a function of the turns of its
  loop: what \<open>select\<close> delivers in that turn and how the writer answers.
\<close>

section \<open>The server\<close>

record event =
  ev_Type :: string
  ev_Attributes :: labels

datatype 'e arrival = EventArrived 'e | ErrorArrived "string option"

record 'e turn =
  arrived :: "'e arrival"
  visit_seed :: nat
  encode_error :: "string option"
  flush_error :: "string option"

record ('v, 'f, 'e) api_client =
  up_ServerVersion :: "nat \<Rightarrow> string + 'v"
  up_ContainerList :: "nat \<Rightarrow> bool \<Rightarrow> string + summary list"
  up_ContainerInspect :: "nat \<Rightarrow> string \<Rightarrow> string + inspect_response"
  up_Events :: "nat \<Rightarrow> 'f option \<Rightarrow> 'e event_scheme turn list"

record ('v, 'f, 'e) DockerProxyServer =
  upstream :: "('v, 'f, 'e) api_client"
  labelPrefix :: string
  exposedByDefault :: bool

definition createProxy :: "('v, 'f, 'e) api_client \<Rightarrow> string \<Rightarrow> bool \<Rightarrow> ('v, 'f, 'e) DockerProxyServer" where
  "createProxy up pre exposed =
     \<lparr>upstream = up,
      labelPrefix = (if pre \<noteq> [] \<and> \<not> HasSuffix pre ''.'' then pre @ ''.'' else pre),
      exposedByDefault = exposed\<rparr>"

definition shouldExpose :: "('v, 'f, 'e) DockerProxyServer \<Rightarrow> labels \<Rightarrow> bool" where
  "shouldExpose s labels =
     (case map_of labels ''traefik.enable'' of
        None \<Rightarrow> exposedByDefault s
      | Some v \<Rightarrow> (case ParseBool v of None \<Rightarrow> exposedByDefault s | Some b \<Rightarrow> b))"

text \<open>The body of the loop of \<open>filterLabels\<close>.\<close>

definition filterLabel :: "string \<Rightarrow> string \<times> string \<Rightarrow> labels \<Rightarrow> labels" where
  "filterLabel pre e newLabels =
     (case e of (k, v) \<Rightarrow>
        if HasPrefix k pre then AList.update (TrimPrefix k pre) v newLabels
        else if \<not> HasPrefix k ''traefik.'' then AList.update k v newLabels
        else newLabels)"

definition filterLabels :: "('v, 'f, 'e) DockerProxyServer \<Rightarrow> nat \<Rightarrow> labels \<Rightarrow> labels" where
  "filterLabels s seed labels =
     (if labelPrefix s = [] \<or> labels = [] then labels
      else fold (filterLabel (labelPrefix s)) (permute seed labels) [])"

section \<open>The handlers\<close>

datatype 'a reply = JSON nat 'a | ErrorJSON nat string

definition handleVersion :: "('v, 'f, 'e) DockerProxyServer \<Rightarrow> nat \<Rightarrow> 'v reply" where
  "handleVersion s tick =
     (case up_ServerVersion (upstream s) tick of Inl err \<Rightarrow> ErrorJSON 500 err | Inr v \<Rightarrow> JSON 200 v)"

fun list_exposed :: "('v, 'f, 'e) DockerProxyServer \<Rightarrow> (nat \<Rightarrow> nat) \<Rightarrow> nat \<Rightarrow> summary list \<Rightarrow> summary list" where
  "list_exposed s seeds i [] = []"
| "list_exposed s seeds i (c # cs) =
     (let labels = filterLabels s (seeds i) (sum_Labels c)
      in if \<not> shouldExpose s labels then list_exposed s seeds (Suc i) cs
         else c\<lparr>sum_Labels := labels\<rparr> # list_exposed s seeds (Suc i) cs)"

definition handleContainersList :: "('v, 'f, 'e) DockerProxyServer \<Rightarrow> nat \<Rightarrow> (nat \<Rightarrow> nat) \<Rightarrow> bool \<Rightarrow> summary list reply" where
  "handleContainersList s tick seeds all =
     (case up_ContainerList (upstream s) tick all of
        Inl err \<Rightarrow> ErrorJSON 500 err
      | Inr cs \<Rightarrow> JSON 200 (list_exposed s seeds 0 cs))"

definition handleContainerInspect :: "('v, 'f, 'e) DockerProxyServer \<Rightarrow> nat \<Rightarrow> nat \<Rightarrow> string \<Rightarrow> inspect_response reply" where
  "handleContainerInspect s tick seed i =
     (case up_ContainerInspect (upstream s) tick i of
        Inl err \<Rightarrow> ErrorJSON 500 err
      | Inr c \<Rightarrow> JSON 200
          (case Config c of
             None \<Rightarrow> c
           | Some cfg \<Rightarrow> c\<lparr>Config := Some (cfg\<lparr>Labels := filterLabels s seed (Labels cfg)\<rparr>)\<rparr>))"

text \<open>
  What the body writer of \<open>handleEvents\<close> has written after some turns, and whether it has returned.
  A dropped event skips the flush (\<open>continue\<close>); a failed flush leaves the loop (\<open>break\<close>).
\<close>

datatype 'e line = EventLine 'e | ErrorLine string

definition filterEvent :: "('v, 'f, 'e) DockerProxyServer \<Rightarrow> nat \<Rightarrow> 'e event_scheme \<Rightarrow> 'e event_scheme" where
  "filterEvent s seed ev =
     (if ev_Type ev = ''container'' then ev\<lparr>ev_Attributes := filterLabels s seed (ev_Attributes ev)\<rparr> else ev)"

fun write_events :: "('v, 'f, 'e) DockerProxyServer \<Rightarrow> 'e event_scheme turn list \<Rightarrow> 'e event_scheme line list \<times> bool" where
  "write_events s [] = ([], False)"
| "write_events s (t # ts) =
     (case arrived t of
        EventArrived ev \<Rightarrow>
          let ev = filterEvent s (visit_seed t) ev
          in if ev_Type ev = ''container'' \<and> \<not> shouldExpose s (ev_Attributes ev) then write_events s ts
             else let written = (if encode_error t = None then [EventLine ev] else [])
                  in if flush_error t \<noteq> None then (written, True)
                     else let (rest, done) = write_events s ts in (written @ rest, done)
      | ErrorArrived (Some err) \<Rightarrow> (if encode_error t = None then [ErrorLine err] else [], True)
      | ErrorArrived None \<Rightarrow> if flush_error t \<noteq> None then ([], True) else write_events s ts)"

text \<open>A bad \<open>filters\<close> parameter is a reply of its own, otherwise the reply is the stream.\<close>

definition handleEvents :: "(string \<Rightarrow> string + 'f) \<Rightarrow> ('v, 'f, 'e) DockerProxyServer \<Rightarrow> nat \<Rightarrow> string
    \<Rightarrow> ('e event_scheme line list \<times> bool) reply" where
  "handleEvents FromJSON s tick f =
     (if f = [] then JSON 200 (write_events s (up_Events (upstream s) tick None))
      else case FromJSON f of
             Inl err \<Rightarrow> ErrorJSON 400 err
           | Inr fa \<Rightarrow> JSON 200 (write_events s (up_Events (upstream s) tick (Some fa))))"

section \<open>Routing\<close>

datatype handler = Ping204 | Version | ContainersList | ContainerInspectById | Events | NotFound

datatype methods = AllMethods | GetMethod

text \<open>The framework answers a \<^verbatim>\<open>HEAD\<close> request with the handler registered for \<^verbatim>\<open>GET\<close>.\<close>

definition accepts :: "methods \<Rightarrow> string \<Rightarrow> bool" where
  "accepts ms meth = (case ms of AllMethods \<Rightarrow> True | GetMethod \<Rightarrow> meth = ''GET'' \<or> meth = ''HEAD'')"

definition routes :: "(methods \<times> string \<times> handler) list" where
  "routes =
     [(AllMethods, ''/_ping'', Ping204),
      (GetMethod, ''/v*/version'', Version),
      (GetMethod, ''/v*/containers/json'', ContainersList),
      (GetMethod, ''/v*/containers/:id/json'', ContainerInspectById),
      (GetMethod, ''/v*/events'', Events),
      (AllMethods, ''/*'', NotFound)]"

definition dispatch :: "(string \<Rightarrow> string \<Rightarrow> bool) \<Rightarrow> string \<Rightarrow> string \<Rightarrow> handler option" where
  "dispatch path_matches meth path =
     map_option (snd \<circ> snd) (find (\<lambda>(ms, pattern, _). accepts ms meth \<and> path_matches pattern path) routes)"

definition handleNotFound :: "nat \<times> string" where
  "handleNotFound = (404, ''Not Found'')"

text \<open>
  A request with the parts the handlers read: the boolean \<open>all\<close>, the parameter \<open>:id\<close> and \<open>filters\<close>. The
  reply is that of the handler of the first route that matches; without one (\<open>None\<close>) it is the
  framework's.
\<close>

record request =
  rq_Method :: string
  rq_Path :: string
  rq_all :: bool
  rq_id :: string
  rq_filters :: string

datatype ('v, 'e) response =
  SendStatus nat
| SendString nat string
| VersionReply "'v reply"
| ListReply "summary list reply"
| InspectReply "inspect_response reply"
| EventReply "('e line list \<times> bool) reply"

definition serve :: "(string \<Rightarrow> string \<Rightarrow> bool) \<Rightarrow> (string \<Rightarrow> string + 'f) \<Rightarrow> ('v, 'f, 'e) DockerProxyServer \<Rightarrow> nat \<Rightarrow> (nat \<Rightarrow> nat)
    \<Rightarrow> request \<Rightarrow> ('v, 'e event_scheme) response option" where
  "serve path_matches FromJSON s tick seeds rq =
     map_option (\<lambda>h. case h of
         Ping204 \<Rightarrow> SendStatus 204
       | Version \<Rightarrow> VersionReply (handleVersion s tick)
       | ContainersList \<Rightarrow> ListReply (handleContainersList s tick seeds (rq_all rq))
       | ContainerInspectById \<Rightarrow> InspectReply (handleContainerInspect s tick (seeds 0) (rq_id rq))
       | Events \<Rightarrow> EventReply (handleEvents FromJSON s tick (rq_filters rq))
       | NotFound \<Rightarrow> (case handleNotFound of (code, text) \<Rightarrow> SendString code text))
     (dispatch path_matches (rq_Method rq) (rq_Path rq))"

text \<open>The listener of the proxy: the network package resolves an address and gives the port it listens on.\<close>

record 'addr tcp =
  ResolveTCPAddr :: "string \<Rightarrow> string \<Rightarrow> string + 'addr"
  ListenTCP :: "string \<Rightarrow> 'addr \<Rightarrow> string + nat"

definition getAvailablePort :: "'addr tcp \<Rightarrow> string + nat" where
  "getAvailablePort net =
     (case ResolveTCPAddr net ''tcp'' ''localhost:0'' of
        Inl err \<Rightarrow> Inl err
      | Inr addr \<Rightarrow> (case ListenTCP net ''tcp'' addr of Inl err \<Rightarrow> Inl err | Inr l \<Rightarrow> Inr l))"

text \<open>
  The endpoint of the started proxy. The \<open>Fatal\<close> event for a failed listener is never sent, so the
  program goes on with a nil listener and panics (\<open>None\<close>).
\<close>

definition start_endpoint :: "'addr tcp \<Rightarrow> string option" where
  "start_endpoint net =
     (case getAvailablePort net of Inl err \<Rightarrow> None | Inr port \<Rightarrow> Some (''http://localhost:'' @ FormatInt (int port)))"

section \<open>Labels behind the proxy\<close>

text \<open>
  The result of the loop in terms of the visited entries: each entry goes to one key or is dropped,
  and the entry visited last wins.
\<close>

definition relabel :: "string \<Rightarrow> string \<times> string \<Rightarrow> (string \<times> string) option" where
  "relabel pre e =
     (if HasPrefix (fst e) pre then Some (TrimPrefix (fst e) pre, snd e)
      else if HasPrefix (fst e) ''traefik.'' then None else Some e)"

lemma fold_filterLabel:
  "fold (filterLabel pre) xs m = fold (\<lambda>(k, v). AList.update k v) (List.map_filter (relabel pre) xs) m"
  by (induction xs arbitrary: m) (auto simp: filterLabel_def relabel_def List.map_filter_simps)

lemma map_of_fold_update:
  "map_of (fold (\<lambda>(k, v). AList.update k v) xs m) = map_of m ++ map_of (rev xs)"
  by (induction xs arbitrary: m) (auto simp: update_conv')

lemma wf_map_fold_update: "wf_map m \<Longrightarrow> wf_map (fold (\<lambda>(k, v). AList.update k v) xs m)"
  by (induction xs arbitrary: m) auto

text \<open>
  \<open>relabelled pre m l\<close>: the label \<open>k\<close> of \<open>l\<close> is the label \<open>pre @ k\<close> of \<open>m\<close>, or the label \<open>k\<close> of \<open>m\<close>
  if that one is neither below the prefix nor a traefik label; it is one of them if there is one.
\<close>

definition kept_label :: "string \<Rightarrow> labels \<Rightarrow> string \<Rightarrow> string option" where
  "kept_label pre m k = (if HasPrefix k pre \<or> HasPrefix k ''traefik.'' then None else map_of m k)"

definition relabelled :: "string \<Rightarrow> labels \<Rightarrow> labels \<Rightarrow> bool" where
  "relabelled pre m l \<longleftrightarrow> (\<forall>k.
     if map_of m (pre @ k) = None then map_of l k = kept_label pre m k
     else map_of l k = map_of m (pre @ k)
       \<or> (kept_label pre m k \<noteq> None \<and> map_of l k = kept_label pre m k))"

lemma set_map_filter: "y \<in> set (List.map_filter f xs) \<longleftrightarrow> (\<exists>x \<in> set xs. f x = Some y)"
  by (induction xs) (auto simp: List.map_filter_simps split: option.splits)

lemma relabel_Some:
  "relabel pre e = Some (k, v) \<longleftrightarrow>
     e = (pre @ k, v) \<or> (e = (k, v) \<and> \<not> HasPrefix k pre \<and> \<not> HasPrefix k ''traefik.'')"
  by (cases e) (auto simp: relabel_def prefix_def)

lemma in_map_filter_relabel:
  "(k, v) \<in> set (List.map_filter (relabel pre) xs) \<longleftrightarrow>
     (pre @ k, v) \<in> set xs \<or> ((k, v) \<in> set xs \<and> \<not> HasPrefix k pre \<and> \<not> HasPrefix k ''traefik.'')"
  unfolding set_map_filter relabel_Some by blast

lemma filterLabels_relabelled:
  assumes "wf_map m"
  shows "relabelled (labelPrefix s) m (filterLabels s seed m) \<and> wf_map (filterLabels s seed m)"
proof (cases "labelPrefix s = [] \<or> m = []")
  case True
  with assms show ?thesis by (auto simp: filterLabels_def relabelled_def kept_label_def)
next
  case False
  let ?p = "labelPrefix s"
  let ?ys = "List.map_filter (relabel ?p) (permute seed m)"
  have l: "map_of (filterLabels s seed m) = map_of (rev ?ys)"
    using False by (simp add: filterLabels_def fold_filterLabel map_of_fold_update)
  have mem: "(k, v) \<in> set (rev ?ys) \<longleftrightarrow> map_of m (?p @ k) = Some v \<or> kept_label ?p m k = Some v" for k v
    using wf_map_lookup [OF assms] by (auto simp: in_map_filter_relabel kept_label_def)
  have "if map_of m (?p @ k) = None then map_of (rev ?ys) k = kept_label ?p m k
     else map_of (rev ?ys) k = map_of m (?p @ k)
       \<or> (kept_label ?p m k \<noteq> None \<and> map_of (rev ?ys) k = kept_label ?p m k)" for k
  proof (cases "map_of (rev ?ys) k")
    case None
    then have "(k, v) \<notin> set (rev ?ys)" for v by (force simp: map_of_eq_None_iff)
    then have "map_of m (?p @ k) = None" "kept_label ?p m k = None"
      unfolding mem by (metis not_None_eq)+
    with None show ?thesis by simp
  next
    case (Some v)
    then have "(k, v) \<in> set (rev ?ys)" by (rule map_of_SomeD)
    then have "map_of m (?p @ k) = Some v \<or> kept_label ?p m k = Some v" unfolding mem .
    with Some show ?thesis by auto
  qed
  moreover have "wf_map (filterLabels s seed m)"
    using False by (simp add: filterLabels_def fold_filterLabel wf_map_fold_update)
  ultimately show ?thesis unfolding relabelled_def l by blast
qed

text \<open>A traefik label behind the proxy is the prefixed label, whatever the iteration order.\<close>

lemma relabelled_traefik: "relabelled pre m l \<Longrightarrow> HasPrefix k ''traefik.'' \<Longrightarrow> map_of l k = map_of m (pre @ k)"
  by (auto simp: relabelled_def kept_label_def split: if_splits)

definition exposed :: "('v, 'f, 'e) DockerProxyServer \<Rightarrow> labels \<Rightarrow> bool" where
  "exposed s m =
     (case Option.bind (map_of m (labelPrefix s @ ''traefik.enable'')) ParseBool of
        None \<Rightarrow> exposedByDefault s | Some b \<Rightarrow> b)"

lemma shouldExpose_filterLabels:
  assumes "wf_map m"
  shows "shouldExpose s (filterLabels s seed m) = exposed s m"
proof -
  have "map_of (filterLabels s seed m) ''traefik.enable'' = map_of m (labelPrefix s @ ''traefik.enable'')"
    using filterLabels_relabelled [OF assms, of s seed] by (intro relabelled_traefik) simp_all
  then show ?thesis by (simp add: shouldExpose_def exposed_def split: option.split)
qed

text \<open>What the proxy makes of a summary and of an event.\<close>

definition passes :: "('v, 'f, 'e) DockerProxyServer \<Rightarrow> summary \<Rightarrow> summary \<Rightarrow> bool" where
  "passes s c c' \<longleftrightarrow> (\<exists>l. c' = c\<lparr>sum_Labels := l\<rparr> \<and> wf_map l \<and> relabelled (labelPrefix s) (sum_Labels c) l)"

definition passes_event :: "('v, 'f, 'e) DockerProxyServer \<Rightarrow> 'e event_scheme \<Rightarrow> 'e event_scheme \<Rightarrow> bool" where
  "passes_event s ev ev' \<longleftrightarrow>
     (if ev_Type ev = ''container''
      then \<exists>l. ev' = ev\<lparr>ev_Attributes := l\<rparr> \<and> relabelled (labelPrefix s) (ev_Attributes ev) l
      else ev' = ev)"

definition shown_event :: "('v, 'f, 'e) DockerProxyServer \<Rightarrow> 'e event_scheme \<Rightarrow> bool" where
  "shown_event s ev \<longleftrightarrow> (ev_Type ev = ''container'' \<longrightarrow> exposed s (ev_Attributes ev))"

lemma list_exposed_passes:
  "list_all (wf_map \<circ> sum_Labels) cs \<Longrightarrow>
     list_all2 (passes s) (filter (exposed s \<circ> sum_Labels) cs) (list_exposed s seeds i cs)"
proof (induction cs arbitrary: i)
  case (Cons c cs)
  then have "wf_map (sum_Labels c)" by simp
  note f = shouldExpose_filterLabels [OF this, of s "seeds i"] filterLabels_relabelled [OF this, of s "seeds i"]
  from Cons have "list_all2 (passes s) (filter (exposed s \<circ> sum_Labels) cs) (list_exposed s seeds (Suc i) cs)"
    by (simp add: comp_def)
  moreover have "passes s c (c\<lparr>sum_Labels := filterLabels s (seeds i) (sum_Labels c)\<rparr>)"
    using f(2) by (auto simp: passes_def)
  ultimately show ?case using f(1) by (simp add: Let_def comp_def)
qed simp

lemma write_events_passes:
  assumes "list_all (\<lambda>t. encode_error t = None \<and> flush_error t = None) ts"
    and "map arrived ts = map EventArrived evs" and "list_all (wf_map \<circ> ev_Attributes) evs"
  shows "\<exists>out. write_events s (ts @ us) = (map EventLine out @ fst (write_events s us), snd (write_events s us))
    \<and> list_all2 (passes_event s) (filter (shown_event s) evs) out"
  using assms
proof (induction ts arbitrary: evs)
  case (Cons t ts)
  then obtain ev evs' where evs: "evs = ev # evs'" "arrived t = EventArrived ev" by (cases evs) auto
  from Cons evs obtain out where
    out: "write_events s (ts @ us) = (map EventLine out @ fst (write_events s us), snd (write_events s us))"
      "list_all2 (passes_event s) (filter (shown_event s) evs') out" by auto
  let ?ev = "filterEvent s (visit_seed t) ev"
  from Cons.prems(3) evs have wf: "wf_map (ev_Attributes ev)" by simp
  have ty: "ev_Type ?ev = ev_Type ev" by (simp add: filterEvent_def)
  have p: "passes_event s ev ?ev"
    using filterLabels_relabelled [OF wf, of s "visit_seed t"] by (auto simp: passes_event_def filterEvent_def)
  have sh: "shown_event s ev \<longleftrightarrow> \<not> (ev_Type ?ev = ''container'' \<and> \<not> shouldExpose s (ev_Attributes ?ev))"
    using shouldExpose_filterLabels [OF wf, of s "visit_seed t"] by (simp add: shown_event_def filterEvent_def)
  show ?case
  proof (cases "shown_event s ev")
    case True
    with sh out Cons.prems(1) evs(2)
    have "write_events s ((t # ts) @ us) = (map EventLine (?ev # out) @ fst (write_events s us), snd (write_events s us))"
      by (simp add: Let_def split_beta)
    moreover have "list_all2 (passes_event s) (filter (shown_event s) evs) (?ev # out)"
      using True p out(2) evs(1) by simp
    ultimately show ?thesis by blast
  next
    case False
    with sh have "ev_Type ?ev = ''container'' \<and> \<not> shouldExpose s (ev_Attributes ?ev)" by blast
    with evs(2) have "write_events s ((t # ts) @ us) = write_events s (ts @ us)" by (simp add: Let_def)
    with False out evs(1) show ?thesis by auto
  qed
qed (auto intro: exI [of _ "[]"])

section \<open>The cache behind the proxy\<close>

text \<open>
  The docker client of the cache when it connects to the proxy: a call is a request to the handler
  at that tick. \<open>remote_error\<close> is the text of the error the client makes of an error reply.
\<close>

definition proxied :: "(nat \<Rightarrow> string \<Rightarrow> string) \<Rightarrow> (nat \<Rightarrow> nat \<Rightarrow> nat) \<Rightarrow> ('v, 'f, 'e) DockerProxyServer \<Rightarrow> docker_client" where
  "proxied remote_error seeds s = \<lparr>
     ContainerList = (\<lambda>tick. case handleContainersList s tick (seeds tick) False of
         JSON _ cs \<Rightarrow> (Some cs, None)
       | ErrorJSON code e \<Rightarrow> (None, Some (remote_error code e))),
     ContainerInspect = (\<lambda>tick i. case handleContainerInspect s tick (seeds tick 0) i of
         JSON _ c \<Rightarrow> Inr c
       | ErrorJSON code e \<Rightarrow> Inl (remote_error code e))\<rparr>"

definition shown_container :: "('v, 'f, 'e) DockerProxyServer \<Rightarrow> string \<Rightarrow> bool" where
  "shown_container s i \<longleftrightarrow> (\<exists>tick cs c. up_ContainerList (upstream s) tick False = Inr cs
     \<and> c \<in> set cs \<and> sum_ID c = i \<and> exposed s (sum_Labels c))"

definition inspected_from :: "('v, 'f, 'e) DockerProxyServer \<Rightarrow> string \<Rightarrow> inspect_response \<Rightarrow> bool" where
  "inspected_from s i d \<longleftrightarrow> (\<exists>tick c. up_ContainerInspect (upstream s) tick i = Inr c
     \<and> Base d = Base c \<and> NetworkSettings d = NetworkSettings c)"

definition behind_proxy :: "(nat \<Rightarrow> string \<Rightarrow> string) \<Rightarrow> (nat \<Rightarrow> nat \<Rightarrow> nat) \<Rightarrow> ('v, 'f, 'e) DockerProxyServer \<Rightarrow> world \<Rightarrow> bool" where
  "behind_proxy remote_error seeds s w \<longleftrightarrow> dc_client (w_cache w) = proxied remote_error seeds s
     \<and> (\<forall>l c. dc_list (w_cache w) = Some l \<longrightarrow> c \<in> set l \<longrightarrow> shown_container s (sum_ID c))
     \<and> (\<forall>(i, d) \<in> set (dc_details (w_cache w)). shown_container s i \<and> inspected_from s i d)"

definition labels_sane :: "('v, 'f, 'e) DockerProxyServer \<Rightarrow> bool" where
  "labels_sane s \<longleftrightarrow> (\<forall>tick cs. up_ContainerList (upstream s) tick False = Inr cs \<longrightarrow> list_all (wf_map \<circ> sum_Labels) cs)"

lemma proxied_list:
  assumes "labels_sane s" and "ContainerList (proxied remote_error seeds s) tick = (Some l, e)" and "c \<in> set l"
  shows "shown_container s (sum_ID c)"
proof -
  from assms(2) obtain cs where cs: "up_ContainerList (upstream s) tick False = Inr cs"
    and l: "l = list_exposed s (seeds tick) 0 cs"
    by (auto simp: proxied_def handleContainersList_def split: sum.splits)
  from assms(1) cs have "list_all2 (passes s) (filter (exposed s \<circ> sum_Labels) cs) l"
    unfolding l labels_sane_def by (blast intro: list_exposed_passes)
  with assms(3) obtain c0 where "c0 \<in> set (filter (exposed s \<circ> sum_Labels) cs)" "passes s c0 c"
    by (metis in_set_conv_nth list_all2_conv_all_nth)
  with cs show ?thesis unfolding shown_container_def by (intro exI [of _ tick] exI [of _ cs] exI [of _ c0]) (auto simp: passes_def)
qed

lemma proxied_inspect:
  "ContainerInspect (proxied remote_error seeds s) tick i = Inr d \<Longrightarrow> inspected_from s i d"
  by (auto simp: proxied_def handleContainerInspect_def inspected_from_def split: sum.splits option.splits) blast

lemma set_labels_inspected: "inspected_from s i d \<Longrightarrow> set_labels l d = Some d' \<Longrightarrow> inspected_from s i d'"
  by (auto simp: inspected_from_def set_labels_def split: option.splits) metis

lemma populate_one_behind:
  assumes "populate_one c w = Some (e, w')" and "behind_proxy re seeds s w" and "shown_container s (sum_ID c)"
  shows "behind_proxy re seeds s w'"
proof -
  obtain r u where r: "(case map_of (dc_details (w_cache w)) (sum_ID c) of
      Some i \<Rightarrow> (Inr i, w) | None \<Rightarrow> inspect_container (sum_ID c) w) = (r, u)" by fastforce
  then have u: "w_cache u = w_cache w" by (auto simp: inspect_container_def split: option.splits)
  then have bu: "behind_proxy re seeds s u" using assms(2) by (simp add: behind_proxy_def)
  show ?thesis
  proof (cases r)
    case (Inl x)
    with assms(1) r bu show ?thesis by (simp add: populate_one_def)
  next
    case (Inr i)
    with r assms(2) have i: "inspected_from s (sum_ID c) i"
      by (auto simp: behind_proxy_def inspect_container_def proxied_inspect
          split: option.splits dest!: map_of_SomeD)
    obtain seed v where v: "next_seed u = (seed, v)" "w_cache v = w_cache w"
      using u by (auto simp: next_seed_def)
    from Inr assms(1) r v have "\<exists>(cfg :: container_config) i'. set_labels (normalizeLabels seed (Labels cfg)) i = Some i'
      \<and> w' = set_details (AList.update (sum_ID c) i' (dc_details (w_cache w))) v"
      by (auto simp: populate_one_def bind_eq_Some_conv)
    then obtain cfg :: container_config and i' where i': "set_labels (normalizeLabels seed (Labels cfg)) i = Some i'"
      and w': "w' = set_details (AList.update (sum_ID c) i' (dc_details (w_cache w))) v" by blast
    from assms(2) v(2) set_labels_inspected [OF i i'] assms(3)
      set_update_subset [of "sum_ID c" i' "dc_details (w_cache w)"]
    show ?thesis by (auto simp: behind_proxy_def w' set_details_def)
  qed
qed

lemma populate_all_behind:
  "populate_all cs w = Some (e, w') \<Longrightarrow> behind_proxy re seeds s w \<Longrightarrow>
     (\<And>c. c \<in> set cs \<Longrightarrow> shown_container s (sum_ID c)) \<Longrightarrow> behind_proxy re seeds s w'"
proof (induction cs arbitrary: w)
  case (Cons c cs)
  then obtain e1 w1 where 1: "populate_one c w = Some (e1, w1)"
    "(if e1 \<noteq> None then Some (e1, w1) else populate_all cs w1) = Some (e, w')"
    by (auto simp: bind_eq_Some_conv)
  from populate_one_behind [OF 1(1) Cons.prems(2)] Cons.prems(3) have "behind_proxy re seeds s w1" by simp
  with 1(2) Cons.IH [of w1] Cons.prems(3) show ?case by (auto split: if_splits)
qed simp

lemma populate_behind:
  assumes "populate w = Some (e, w')" and "behind_proxy re seeds s w" and "labels_sane s"
  shows "behind_proxy re seeds s w'"
proof -
  have 0: "behind_proxy re seeds s (expire_cache w)"
    using assms(2) by (auto simp: behind_proxy_def expire_cache_def time_now_def Let_def)
  have f: "behind_proxy re seeds s v" if "fetch_list (expire_cache w) = (x, v)" for x v
    using that 0 proxied_list [OF assms(3), of re seeds]
    by (auto simp: behind_proxy_def fetch_list_def list_containers_def Let_def split: if_splits prod.splits)
  from assms(1) show ?thesis
  proof (cases rule: populate_cases)
    case (list_error x)
    with f show ?thesis by blast
  next
    case (inspected w1 w2)
    from f [OF inspected(1)] have b: "behind_proxy re seeds s w1" .
    then have "shown_container s (sum_ID c)" if "c \<in> set (case dc_list (w_cache w1) of None \<Rightarrow> [] | Some l \<Rightarrow> l)" for c
      using that by (cases "dc_list (w_cache w1)") (simp_all add: behind_proxy_def)
    from populate_all_behind [OF inspected(2) b this] have "behind_proxy re seeds s w2" .
    with inspected(3) show ?thesis by (auto simp: behind_proxy_def renew_cache_def time_now_def Let_def)
  qed
qed

section \<open>Properties\<close>

text \<open>
  C19: behind the proxy a traefik label has the value of the prefixed label of the container, whatever
  order Go visits the labels in: with a prefix, traefik labels without it are invisible.
\<close>

theorem proxy_traefik_labels:
  assumes "wf_map m" and "HasPrefix k ''traefik.''"
  shows "map_of (filterLabels (createProxy up pre d) seed m) k
    = map_of m ((if pre = [] \<or> HasSuffix pre ''.'' then pre else pre @ ''.'') @ k)"
  using relabelled_traefik [OF filterLabels_relabelled [OF assms(1), THEN conjunct1] assms(2), of "createProxy up pre d" seed]
  by (simp add: createProxy_def)

definition demo_client :: "summary list \<Rightarrow> (nat, nat, unit) api_client" where
  "demo_client cs = \<lparr>up_ServerVersion = (\<lambda>_. Inr 1), up_ContainerList = (\<lambda>_ _. Inr cs),
     up_ContainerInspect = (\<lambda>_ i. Inr (sample_container i [(''kop.traefik.http.services.web.loadbalancer.server.port'', ''80'')])), up_Events = (\<lambda>_ _. [])\<rparr>"

definition demo_labels :: labels where
  "demo_labels = [(''kop.traefik.enable'', ''true''), (''traefik.enable'', ''false''), (''app'', ''web'')]"

definition demo_proxy :: "(nat, nat, unit) DockerProxyServer" where
  "demo_proxy = createProxy (demo_client [\<lparr>sum_ID = ''c1'', sum_Labels = demo_labels\<rparr>, \<lparr>sum_ID = ''c2'', sum_Labels = []\<rparr>]) ''kop'' False"

theorem proxy_traefik_labels_witness:
  "map_of (filterLabels (createProxy (demo_client []) ''kop'' False) 1 demo_labels) ''traefik.enable'' = Some ''true''"
  using proxy_traefik_labels [of demo_labels "''traefik.enable''" "demo_client []" "''kop''" False 1]
  by (simp add: demo_labels_def suffix_def)

text \<open>
  C10: the list of containers has, in the order of the daemon, exactly the containers whose prefixed
  enable label says so (or the default, when the label is missing or no boolean); of each only the
  labels change: the prefix is taken off, traefik labels without the prefix are dropped.
\<close>

theorem proxy_lists_exposed:
  assumes "up_ContainerList (upstream s) tick every = Inr cs" and "list_all (wf_map \<circ> sum_Labels) cs"
  shows "\<exists>out. handleContainersList s tick seeds every = JSON 200 out
    \<and> list_all2 (passes s) (filter (exposed s \<circ> sum_Labels) cs) out"
  using list_exposed_passes [OF assms(2)] assms(1) by (simp add: handleContainersList_def)

theorem proxy_lists_exposed_witness:
  "\<exists>out. handleContainersList demo_proxy 0 (\<lambda>_. 0) False = JSON 200 out
    \<and> list_all2 (passes demo_proxy) (filter (exposed demo_proxy \<circ> sum_Labels)
        [\<lparr>sum_ID = ''c1'', sum_Labels = demo_labels\<rparr>, \<lparr>sum_ID = ''c2'', sum_Labels = []\<rparr>]) out
    \<and> map sum_ID (filter (exposed demo_proxy \<circ> sum_Labels)
        [\<lparr>sum_ID = ''c1'', sum_Labels = demo_labels\<rparr>, \<lparr>sum_ID = ''c2'', sum_Labels = []\<rparr>]) = [''c1'']"
proof -
  let ?cs = "[\<lparr>sum_ID = ''c1'', sum_Labels = demo_labels\<rparr>, \<lparr>sum_ID = ''c2'', sum_Labels = []\<rparr>]"
  have "up_ContainerList (upstream demo_proxy) 0 False = Inr ?cs"
    by (simp add: demo_proxy_def createProxy_def demo_client_def)
  moreover have "list_all (wf_map \<circ> sum_Labels) ?cs" by code_simp
  moreover have "map sum_ID (filter (exposed demo_proxy \<circ> sum_Labels) ?cs) = [''c1'']" by code_simp
  ultimately show ?thesis using proxy_lists_exposed [of demo_proxy 0 False ?cs "\<lambda>_. 0"] by simp
qed

text \<open>
  C18: as long as nothing fails the event stream passes on, in order, exactly the events that are not
  about a hidden container, those about containers with rewritten labels; an error of the daemon
  is passed on after the events before it and ends the stream.
\<close>

theorem proxy_streams_events:
  assumes "up_Events (upstream s) tick None = ts @ [t]" and "arrived t = ErrorArrived (Some err)"
    and "list_all (\<lambda>t. encode_error t = None \<and> flush_error t = None) (ts @ [t])"
    and "map arrived ts = map EventArrived evs" and "list_all (wf_map \<circ> ev_Attributes) evs"
  shows "\<exists>out. handleEvents FromJSON s tick [] = JSON 200 (map EventLine out @ [ErrorLine err], True)
    \<and> list_all2 (passes_event s) (filter (shown_event s) evs) out"
  using write_events_passes [of ts evs s "[t]"] assms by (auto simp: handleEvents_def)

definition turn_of :: "event arrival \<Rightarrow> event turn" where
  "turn_of a = \<lparr>arrived = a, visit_seed = 0, encode_error = None, flush_error = None\<rparr>"

definition start_event :: "labels \<Rightarrow> event" where
  "start_event l = \<lparr>ev_Type = ''container'', ev_Attributes = l\<rparr>"

theorem proxy_streams_events_witness:
  "\<exists>out. handleEvents (\<lambda>_. Inl []) (demo_proxy\<lparr>upstream := (demo_client [])\<lparr>up_Events :=
        (\<lambda>_ _. [turn_of (EventArrived (start_event [])), turn_of (EventArrived (start_event demo_labels))]
           @ [turn_of (ErrorArrived (Some ''EOF''))])\<rparr>\<rparr>) 0 [] = JSON 200 (map EventLine out @ [ErrorLine ''EOF''], True)
     \<and> length out = 1"
proof -
  let ?ts = "[turn_of (EventArrived (start_event [])), turn_of (EventArrived (start_event demo_labels))]"
  let ?t = "turn_of (ErrorArrived (Some ''EOF''))"
  let ?s = "demo_proxy\<lparr>upstream := (demo_client [])\<lparr>up_Events := (\<lambda>_ _. ?ts @ [?t])\<rparr>\<rparr>"
  let ?evs = "[start_event [], start_event demo_labels]"
  have "up_Events (upstream ?s) 0 None = ?ts @ [?t]" by simp
  moreover have "arrived ?t = ErrorArrived (Some ''EOF'')" by (simp add: turn_of_def)
  moreover have "list_all (\<lambda>t. encode_error t = None \<and> flush_error t = None) (?ts @ [?t])" by (simp add: turn_of_def)
  moreover have "map arrived ?ts = map EventArrived ?evs" by (simp add: turn_of_def)
  moreover have "list_all (wf_map \<circ> ev_Attributes) ?evs" by code_simp
  ultimately obtain out where o: "handleEvents (\<lambda>_. Inl []) ?s 0 [] = JSON 200 (map EventLine out @ [ErrorLine ''EOF''], True)"
    "list_all2 (passes_event ?s) (filter (shown_event ?s) ?evs) out"
    using proxy_streams_events [of ?s 0 ?ts ?t "''EOF''" ?evs "\<lambda>_. Inl []"] by blast
  have "length (filter (shown_event ?s) ?evs) = 1" by code_simp
  with o show ?thesis using list_all2_lengthD [OF o(2)] by auto
qed

text \<open>
  The turns of the event stream: what a turn writes, and whether it ends the stream. A turn whose
  event is dropped does neither, also when the connection to the client is already broken.
\<close>

definition dropped :: "('v, 'f, 'e) DockerProxyServer \<Rightarrow> 'e event_scheme turn \<Rightarrow> bool" where
  "dropped s t = (case arrived t of
     EventArrived ev \<Rightarrow> ev_Type ev = ''container''
       \<and> \<not> shouldExpose s (filterLabels s (visit_seed t) (ev_Attributes ev))
   | ErrorArrived _ \<Rightarrow> False)"

definition turn_lines :: "('v, 'f, 'e) DockerProxyServer \<Rightarrow> 'e event_scheme turn \<Rightarrow> 'e event_scheme line list" where
  "turn_lines s t =
     (if dropped s t \<or> encode_error t \<noteq> None then []
      else case arrived t of
             EventArrived ev \<Rightarrow> [EventLine (filterEvent s (visit_seed t) ev)]
           | ErrorArrived (Some err) \<Rightarrow> [ErrorLine err]
           | ErrorArrived None \<Rightarrow> [])"

definition last_turn :: "('v, 'f, 'e) DockerProxyServer \<Rightarrow> 'e event_scheme turn \<Rightarrow> bool" where
  "last_turn s t \<longleftrightarrow> (\<exists>err. arrived t = ErrorArrived (Some err)) \<or> (\<not> dropped s t \<and> flush_error t \<noteq> None)"

text \<open>
  C26: when the event stream ends. Whatever the daemon and the client do, the writer returns in the first
  turn that brings an error of the daemon or a failed flush for something it did not drop, and
  in no other case; what it has written are the lines of the turns up to that one.
\<close>

theorem event_stream_ends:
  "write_events s ts =
     (concat (map (turn_lines s) (takeWhile (Not \<circ> last_turn s) ts @ take 1 (dropWhile (Not \<circ> last_turn s) ts))),
      list_ex (last_turn s) ts)"
proof (induction ts)
  case (Cons t ts)
  show ?case
  proof (cases "arrived t")
    case (EventArrived ev)
    then show ?thesis using Cons
      by (auto simp: last_turn_def turn_lines_def dropped_def filterEvent_def Let_def)
  next
    case (ErrorArrived e)
    then show ?thesis using Cons
      by (cases e) (auto simp: last_turn_def turn_lines_def dropped_def)
  qed
qed simp

text \<open>
  The proxy is read-only: a request that is neither \<^verbatim>\<open>GET\<close> nor \<^verbatim>\<open>HEAD\<close> never reaches the daemon.
\<close>

lemma proxy_read_only:
  assumes "rq_Method rq \<noteq> ''GET''" and "rq_Method rq \<noteq> ''HEAD''" and "path_matches ''/*'' (rq_Path rq)"
  shows "serve path_matches FromJSON s tick seeds rq =
    Some (if path_matches ''/_ping'' (rq_Path rq) then SendStatus 204 else SendString 404 ''Not Found'')"
  using assms by (simp add: serve_def dispatch_def routes_def accepts_def handleNotFound_def)

text \<open>
  C11: a lookup of the cache that connects through the proxy returns only containers that the proxy
  shows: the daemon listed the container with labels that expose it, and the data is the daemon's.
  The cache stays behind the proxy.
\<close>

theorem proxied_lookup_shown:
  assumes "findContainerByServiceName svcType svcName routerName w = Some (r, w')"
    and "behind_proxy remote_error seeds s w" and "labels_sane s"
  shows "behind_proxy remote_error seeds s w'
    \<and> (\<forall>c. r = Inr c \<longrightarrow> (\<exists>i. shown_container s i \<and> inspected_from s i c))"
  using assms(1)
proof (cases rule: find_cases)
  case (failed e)
  with populate_behind [OF _ assms(2,3)] show ?thesis by blast
next
  case (searched w1)
  from populate_behind [OF searched(1) assms(2,3)] searched(3)
  have b: "behind_proxy remote_error seeds s w'" by (simp add: behind_proxy_def)
  moreover have "c \<in> snd ` set (dc_details (w_cache w'))" if "r = Inr c" for c
    using searched(4) that by (simp add: containers_def)
  ultimately show ?thesis by (fastforce simp: behind_proxy_def)
qed

definition demo_world :: world where
  "demo_world = \<lparr>w_now = (\<lambda>_. 1), w_seed = (\<lambda>_. 0), w_tick = 0,
     w_cache = \<lparr>dc_client = proxied (\<lambda>_ e. e) (\<lambda>_ _. 0) demo_proxy, dc_list = None, dc_details = [], dc_expires = 0\<rparr>\<rparr>"

theorem proxied_lookup_shown_witness:
  "\<exists>c w' i. findContainerByServiceName ''http'' ''web'' [] demo_world = Some (Inr c, w')
     \<and> behind_proxy (\<lambda>_ e. e) (\<lambda>_ _. 0) demo_proxy w' \<and> shown_container demo_proxy i \<and> inspected_from demo_proxy i c"
proof -
  have "map_option (\<lambda>(r, _). case r of Inl _ \<Rightarrow> False | Inr _ \<Rightarrow> True)
      (findContainerByServiceName ''http'' ''web'' [] demo_world) = Some True" by code_simp
  then obtain r w' where r: "findContainerByServiceName ''http'' ''web'' [] demo_world = Some (r, w')"
    "case r of Inl _ \<Rightarrow> False | Inr _ \<Rightarrow> True" by auto
  then obtain c where f: "findContainerByServiceName ''http'' ''web'' [] demo_world = Some (Inr c, w')"
    by (cases r) simp_all
  have b: "behind_proxy (\<lambda>_ e. e) (\<lambda>_ _. 0) demo_proxy demo_world" by (simp add: behind_proxy_def demo_world_def)
  have "labels_sane demo_proxy"
    by (simp add: labels_sane_def demo_proxy_def createProxy_def demo_client_def demo_labels_def)
  from proxied_lookup_shown [OF f b this] f show ?thesis by blast
qed

text \<open>
  Where a label with the prefix taken off meets another label of the container, the iteration order
  decides.
\<close>

lemma proxy_collision_order:
  "map_of (filterLabels demo_proxy 0 [(''kop.app'', ''a''), (''app'', ''b'')]) ''app''
    \<noteq> map_of (filterLabels demo_proxy 1 [(''kop.app'', ''a''), (''app'', ''b'')]) ''app''"
  by code_simp

end
