(* ===== verification/Namespaces.thy ===== *)
theory Namespaces
  imports Samples
begin

text \<open>
  Filtering by namespace (\<^verbatim>\<open>traefik_kop.go\<close>, \<open>keepContainer\<close> and \<open>filterServices\<close>): six
  loops, over the services and the routers of each protocol, that delete the entries whose
  container is not in one of the configured namespaces.

  Go fixes which keys a loop visits when entries are only deleted, and only entries already
  visited are deleted here; so each loop runs over the keys present at its start, in an order the
  run time picks. The service loops change services only, and the lookup of a service's router
  reads routers only.
\<close>

section \<open>The filter\<close>

definition keepContainer :: "string list \<Rightarrow> inspect_response \<Rightarrow> bool option" where
  "keepContainer ns container = do {
     cfg \<leftarrow> Config container;
     let containerNS = splitStringArr (get_str (Labels cfg) ''kop.namespace'');
     Some (if ns = [] \<and> containerNS = [] then True
           else list_ex (\<lambda>v. v \<in> set containerNS) ns)
   }"

definition filterService :: "string \<Rightarrow> string list \<Rightarrow> configuration \<Rightarrow> string
    \<Rightarrow> 'srv service_map \<times> world \<Rightarrow> ('srv service_map \<times> world) option" where
  "filterService svcType ns conf svcName = (\<lambda>(svcs, w). do {
     (r, w) \<leftarrow> serviceContainer conf svcType svcName w;
     case r of
       Inl err \<Rightarrow> Some (svcs, w)
     | Inr container \<Rightarrow> do {
         keep \<leftarrow> keepContainer ns container;
         Some (if keep then svcs else AList.delete svcName svcs, w)
       }
   })"

definition filterServicesOf :: "string \<Rightarrow> string list \<Rightarrow> configuration \<Rightarrow> 'srv service_map \<Rightarrow> world
    \<Rightarrow> ('srv service_map \<times> world) option" where
  "filterServicesOf svcType ns conf svcs w =
     (let (seed, w) = next_seed w
      in loop (filterService svcType ns conf) (permute seed (keys_of svcs)) (svcs, w))"

definition filterRouter :: "string \<Rightarrow> string list \<Rightarrow> string \<times> router option
    \<Rightarrow> router_map \<times> world \<Rightarrow> (router_map \<times> world) option" where
  "filterRouter svcType ns = (\<lambda>(routerName, router) (rs, w). do {
     router \<leftarrow> router;
     (r, w) \<leftarrow> findContainerByServiceName svcType (rt_Service router) routerName w;
     case r of
       Inl err \<Rightarrow> Some (rs, w)
     | Inr container \<Rightarrow> do {
         keep \<leftarrow> keepContainer ns container;
         Some (if keep then rs else AList.delete routerName rs, w)
       }
   })"

definition filterRoutersOf :: "string \<Rightarrow> string list \<Rightarrow> router_map \<Rightarrow> world
    \<Rightarrow> (router_map \<times> world) option" where
  "filterRoutersOf svcType ns rs w =
     (let (seed, w) = next_seed w
      in loop (filterRouter svcType ns) (permute seed rs) (rs, w))"

definition filterSection :: "string \<Rightarrow> string list \<Rightarrow> configuration \<Rightarrow> 'srv proto option \<Rightarrow> world
    \<Rightarrow> ('srv proto option \<times> world) option" where
  "filterSection svcType ns conf s w =
     (case s of
        None \<Rightarrow> Some (None, w)
      | Some p \<Rightarrow> do {
          (svcs, w) \<leftarrow> filterServicesOf svcType ns conf (Services p) w;
          (rs, w) \<leftarrow> filterRoutersOf svcType ns (Routers p) w;
          Some (Some (p\<lparr>Services := svcs, Routers := rs\<rparr>), w)
        })"

definition filterServices :: "string list \<Rightarrow> configuration \<Rightarrow> world \<Rightarrow> (configuration \<times> world) option" where
  "filterServices ns conf w = do {
     (http, w) \<leftarrow> filterSection ''http'' ns conf (HTTP conf) w;
     let conf = conf\<lparr>HTTP := http\<rparr>;
     (tcp, w) \<leftarrow> filterSection ''tcp'' ns conf (TCP conf) w;
     let conf = conf\<lparr>TCP := tcp\<rparr>;
     (udp, w) \<leftarrow> filterSection ''udp'' ns conf (UDP conf) w;
     Some (conf\<lparr>UDP := udp\<rparr>, w)
   }"

section \<open>What is kept\<close>

text \<open>A container belongs to kop's namespaces when they share one, or when neither has any.\<close>

definition namespaces :: "inspect_response \<Rightarrow> string list" where
  "namespaces c = splitStringArr (label_of c ''kop.namespace'')"

definition in_namespace :: "string list \<Rightarrow> inspect_response option \<Rightarrow> bool" where
  "in_namespace ns ow =
     (case ow of
        None \<Rightarrow> True
      | Some c \<Rightarrow> (ns = [] \<and> namespaces c = []) \<or> set ns \<inter> set (namespaces c) \<noteq> {})"

lemma keepContainer_eq:
  "normal_container c \<Longrightarrow> keepContainer ns c = Some (in_namespace ns (Some c))"
  by (simp add: keepContainer_def normal_Config in_namespace_def namespaces_def label_of_def
      list_ex_iff Let_def disjoint_iff Bex_def)
     blast

lemma owner_among_normal:
  "settled D w \<Longrightarrow> owner_among D svcType svcName n (Some c) \<Longrightarrow> normal_container c"
  unfolding owner_among_def option.case by (blast dest: settled_normal)

text \<open>The decision that both loops make about a container.\<close>

definition keep_or_delete :: "string list \<Rightarrow> 'k \<Rightarrow> ('k, 'v) gomap \<Rightarrow> string + inspect_response
    \<Rightarrow> world \<Rightarrow> (('k, 'v) gomap \<times> world) option" where
  "keep_or_delete ns k m r w =
     (case r of
        Inl err \<Rightarrow> Some (m, w)
      | Inr c \<Rightarrow> do { keep \<leftarrow> keepContainer ns c; Some (if keep then m else AList.delete k m, w) })"

lemma keep_or_delete_eq:
  assumes "agrees ow r" and "\<And>c. ow = Some c \<Longrightarrow> normal_container c"
  shows "keep_or_delete ns k m r w = Some (if in_namespace ns ow then m else AList.delete k m, w)"
  using assms by (cases ow) (auto simp: keep_or_delete_def agrees_def keepContainer_eq in_namespace_def)

lemma keep_or_delete_shrinks:
  "keep_or_delete ns k m r w = Some (m', w') \<Longrightarrow> m' = m \<or> m' = AList.delete k m"
  by (auto simp: keep_or_delete_def bind_eq_Some_conv split: sum.splits)

lemma filterService_alt:
  "filterService svcType ns conf svcName (svcs, w) =
     Option.bind (serviceContainer conf svcType svcName w) (\<lambda>(r, w). keep_or_delete ns svcName svcs r w)"
  by (simp add: filterService_def keep_or_delete_def)

lemma filterRouter_alt:
  "filterRouter svcType ns (n, router) (rs, w) =
     Option.bind router (\<lambda>rt. Option.bind (findContainerByServiceName svcType (rt_Service rt) n w)
       (\<lambda>(r, w). keep_or_delete ns n rs r w))"
  by (simp add: filterRouter_def keep_or_delete_def)

lemma filterService_step:
  assumes "settled D w" and "resolves D conf svcType svcName ow"
  shows "\<exists>w'. settled D w' \<and> filterService svcType ns conf svcName (svcs, w)
    = Some (if in_namespace ns ow then svcs else AList.delete svcName svcs, w')"
proof -
  obtain r w' where r: "serviceContainer conf svcType svcName w = Some (r, w')" "settled D w'" "agrees ow r"
    using serviceContainer_resolves [OF assms] by blast
  have "keep_or_delete ns svcName svcs r w'
      = Some (if in_namespace ns ow then svcs else AList.delete svcName svcs, w')"
    using resolves_normal [OF assms(1)] assms(2) by (intro keep_or_delete_eq r(3)) blast
  with r show ?thesis by (simp add: filterService_alt)
qed

lemma filterRouter_step:
  assumes "settled D w" and "router = Some rt" and "owner_among D svcType (rt_Service rt) n ow"
  shows "\<exists>w'. settled D w' \<and> filterRouter svcType ns (n, router) (rs, w)
    = Some (if in_namespace ns ow then rs else AList.delete n rs, w')"
proof -
  obtain r w' where r: "findContainerByServiceName svcType (rt_Service rt) n w = Some (r, w')"
    "settled D w'" "agrees ow r"
    using find_owner [OF assms(1,3)] by blast
  have "keep_or_delete ns n rs r w' = Some (if in_namespace ns ow then rs else AList.delete n rs, w')"
    using owner_among_normal [OF assms(1)] assms(3) by (intro keep_or_delete_eq r(3)) blast
  with r assms(2) show ?thesis by (simp add: filterRouter_alt)
qed

lemma settled_next_seed: "settled D w \<Longrightarrow> next_seed w = (seed, w') \<Longrightarrow> settled D w'"
  using settled_later next_seed_later by blast

lemma filter_visited:
  "filter (\<lambda>(k, _). k \<in> fst ` set m \<longrightarrow> P k) m = filter (\<lambda>(k, _). P k) m"
  by (rule filter_cong) (auto simp: rev_image_eqI)

lemma filterServicesOf_eq:
  assumes "settled D w" and "\<And>n. n \<in> set (keys_of svcs) \<Longrightarrow> resolves D conf svcType n (own n)"
  shows "\<exists>w'. settled D w' \<and> filterServicesOf svcType ns conf svcs w
    = Some (filter (\<lambda>(n, _). in_namespace ns (own n)) svcs, w')"
proof -
  obtain seed u where s: "next_seed w = (seed, u)" by fastforce
  have "\<exists>w'. settled D w' \<and> loop (filterService svcType ns conf) (permute seed (keys_of svcs)) (svcs, u)
      = Some (filter (\<lambda>(n, _). n \<notin> (\<lambda>k. k) ` set (permute seed (keys_of svcs)) \<or> in_namespace ns (own n)) svcs, w')"
    by (rule loop_delete [where I = "settled D", OF settled_next_seed [OF assms(1) s]],
        rule filterService_step) (use assms(2) in simp_all)
  then show ?thesis using s by (simp add: filterServicesOf_def filter_visited)
qed

lemma filterRoutersOf_eq:
  assumes "settled D w" and "\<And>n r. (n, r) \<in> set rs \<Longrightarrow>
      \<exists>rt. r = Some rt \<and> owner_among D svcType (rt_Service rt) n (own n)"
  shows "\<exists>w'. settled D w' \<and> filterRoutersOf svcType ns rs w
    = Some (filter (\<lambda>(n, _). in_namespace ns (own n)) rs, w')"
proof -
  obtain seed u where s: "next_seed w = (seed, u)" by fastforce
  have step: "\<exists>w'. settled D w' \<and> filterRouter svcType ns x (m, v)
      = Some (if in_namespace ns (own (fst x)) then m else AList.delete (fst x) m, w')"
    if x: "x \<in> set (permute seed rs)" and v: "settled D v" for x m v
  proof -
    obtain n r where nr: "x = (n, r)" by (cases x)
    with x assms(2) [of n r] obtain rt where "r = Some rt" "owner_among D svcType (rt_Service rt) n (own n)"
      by auto
    from filterRouter_step [OF v this, of ns m] nr show ?thesis by (simp only: fst_conv)
  qed
  have "\<exists>w'. settled D w' \<and> loop (filterRouter svcType ns) (permute seed rs) (rs, u)
      = Some (filter (\<lambda>(n, _). n \<notin> fst ` set (permute seed rs) \<or> in_namespace ns (own n)) rs, w')"
    by (rule loop_delete [where I = "settled D", OF settled_next_seed [OF assms(1) s]], rule step)
  then show ?thesis using s by (simp add: filterRoutersOf_def filter_visited)
qed

section \<open>The whole filter\<close>

text \<open>
  \<open>owned D conf svcType own rown s\<close>: in the section \<open>s\<close> of \<open>conf\<close> every service \<open>n\<close> resolves to
  \<open>own n\<close> and every router \<open>n\<close> belongs to \<open>rown n\<close>.
\<close>

definition owned :: "(string, inspect_response) gomap \<Rightarrow> configuration \<Rightarrow> string
    \<Rightarrow> (string \<Rightarrow> inspect_response option) \<Rightarrow> (string \<Rightarrow> inspect_response option)
    \<Rightarrow> 'srv proto option \<Rightarrow> bool" where
  "owned D conf svcType own rown s \<longleftrightarrow>
     (\<forall>n \<in> set (keys_of (services s)). resolves D conf svcType n (own n))
     \<and> (\<forall>(n, r) \<in> set (routers s). case r of None \<Rightarrow> False
          | Some rt \<Rightarrow> owner_among D svcType (rt_Service rt) n (rown n))"

definition filtered :: "string list \<Rightarrow> (string \<Rightarrow> inspect_response option)
    \<Rightarrow> (string \<Rightarrow> inspect_response option) \<Rightarrow> 'srv proto \<Rightarrow> 'srv proto" where
  "filtered ns own rown p = p\<lparr>Services := filter (\<lambda>(n, _). in_namespace ns (own n)) (Services p),
     Routers := filter (\<lambda>(n, _). in_namespace ns (rown n)) (Routers p)\<rparr>"

lemma filterSection_eq:
  assumes "settled D w" and "owned D conf svcType own rown s"
  shows "\<exists>w'. settled D w' \<and>
    filterSection svcType ns conf s w = Some (map_option (filtered ns own rown) s, w')"
proof (cases s)
  case (Some p)
  have 1: "\<And>n. n \<in> set (keys_of (Services p)) \<Longrightarrow> resolves D conf svcType n (own n)"
    using assms(2) Some by (auto simp: owned_def)
  have 2: "\<And>n r. (n, r) \<in> set (Routers p) \<Longrightarrow>
      \<exists>rt. r = Some rt \<and> owner_among D svcType (rt_Service rt) n (rown n)"
    using assms(2) Some unfolding owned_def by (fastforce split: option.splits)
  obtain w1 where w1: "settled D w1" "filterServicesOf svcType ns conf (Services p) w
      = Some (filter (\<lambda>(n, _). in_namespace ns (own n)) (Services p), w1)"
    using filterServicesOf_eq [OF assms(1) 1] by blast
  obtain w2 where "settled D w2" "filterRoutersOf svcType ns (Routers p) w1
      = Some (filter (\<lambda>(n, _). in_namespace ns (rown n)) (Routers p), w2)"
    using filterRoutersOf_eq [OF w1(1) 2] by blast
  with w1 Some show ?thesis by (simp add: filterSection_def filtered_def)
qed (use assms(1) in \<open>auto simp: filterSection_def\<close>)

lemma resolves_cong:
  "routers_of svcType conf = routers_of svcType conf' \<Longrightarrow>
     resolves D conf svcType n ow = resolves D conf' svcType n ow"
  by (simp add: resolves_def routers_ok_def router_choices_def)

lemma owned_cong:
  "routers_of svcType conf = routers_of svcType conf' \<Longrightarrow>
     owned D conf svcType own rown s = owned D conf' svcType own rown s"
  by (simp add: owned_def resolves_cong [of svcType conf conf'])

lemma routers_of_update [simp]:
  "routers_of ''tcp'' (conf\<lparr>HTTP := h\<rparr>) = routers_of ''tcp'' conf"
  "routers_of ''udp'' (conf\<lparr>HTTP := h\<rparr>) = routers_of ''udp'' conf"
  "routers_of ''udp'' (conf\<lparr>TCP := t\<rparr>) = routers_of ''udp'' conf"
  "routers_of ''http'' (conf\<lparr>TCP := t\<rparr>) = routers_of ''http'' conf"
  "routers_of ''http'' (conf\<lparr>UDP := u\<rparr>) = routers_of ''http'' conf"
  "routers_of ''tcp'' (conf\<lparr>UDP := u\<rparr>) = routers_of ''tcp'' conf"
  by (simp_all add: routers_of_def)

definition owned_configuration :: "(string, inspect_response) gomap \<Rightarrow> configuration
    \<Rightarrow> (string \<Rightarrow> string \<Rightarrow> inspect_response option) \<Rightarrow> (string \<Rightarrow> string \<Rightarrow> inspect_response option)
    \<Rightarrow> bool" where
  "owned_configuration D conf own rown \<longleftrightarrow>
     owned D conf ''http'' (own ''http'') (rown ''http'') (HTTP conf)
     \<and> owned D conf ''tcp'' (own ''tcp'') (rown ''tcp'') (TCP conf)
     \<and> owned D conf ''udp'' (own ''udp'') (rown ''udp'') (UDP conf)"

definition filtered_configuration :: "string list
    \<Rightarrow> (string \<Rightarrow> string \<Rightarrow> inspect_response option) \<Rightarrow> (string \<Rightarrow> string \<Rightarrow> inspect_response option)
    \<Rightarrow> configuration \<Rightarrow> configuration" where
  "filtered_configuration ns own rown conf =
     conf\<lparr>HTTP := map_option (filtered ns (own ''http'') (rown ''http'')) (HTTP conf),
          TCP := map_option (filtered ns (own ''tcp'') (rown ''tcp'')) (TCP conf),
          UDP := map_option (filtered ns (own ''udp'') (rown ''udp'')) (UDP conf)\<rparr>"

lemma filterServices_eq:
  assumes "settled D w" and "owned_configuration D conf own rown"
  shows "\<exists>w'. settled D w' \<and>
    filterServices ns conf w = Some (filtered_configuration ns own rown conf, w')"
proof -
  let ?http = "map_option (filtered ns (own ''http'') (rown ''http'')) (HTTP conf)"
  let ?tcp = "map_option (filtered ns (own ''tcp'') (rown ''tcp'')) (TCP conf)"
  let ?c1 = "conf\<lparr>HTTP := ?http\<rparr>" and ?c2 = "conf\<lparr>HTTP := ?http, TCP := ?tcp\<rparr>"
  note o = assms(2) [unfolded owned_configuration_def]
  obtain w1 where w1: "settled D w1" "filterSection ''http'' ns conf (HTTP conf) w = Some (?http, w1)"
    using filterSection_eq [OF assms(1)] o by blast
  have "owned D ?c1 ''tcp'' (own ''tcp'') (rown ''tcp'') (TCP conf)"
    using o by (simp add: owned_cong [of "''tcp''" ?c1 conf])
  then obtain w2 where w2: "settled D w2" "filterSection ''tcp'' ns ?c1 (TCP conf) w1 = Some (?tcp, w2)"
    using filterSection_eq [OF w1(1)] by blast
  have "owned D ?c2 ''udp'' (own ''udp'') (rown ''udp'') (UDP conf)"
    using o by (simp add: owned_cong [of "''udp''" ?c2 conf])
  then obtain w3 where "settled D w3" "filterSection ''udp'' ns ?c2 (UDP conf) w2
      = Some (map_option (filtered ns (own ''udp'') (rown ''udp'')) (UDP conf), w3)"
    using filterSection_eq [OF w2(1)] by blast
  with w1 w2 show ?thesis by (simp add: filterServices_def filtered_configuration_def Let_def)
qed

section \<open>The frame of the filter\<close>

text \<open>Whatever the daemon answers, the filter only deletes services and routers.\<close>

definition narrowed :: "'srv proto option \<Rightarrow> 'srv proto option \<Rightarrow> bool" where
  "narrowed s s' \<longleftrightarrow>
     (case s of
        None \<Rightarrow> s' = None
      | Some p \<Rightarrow> \<exists>P Q. s' = Some (p\<lparr>Services := filter P (Services p), Routers := filter Q (Routers p)\<rparr>))"

lemma filterSection_narrows:
  assumes "filterSection svcType ns conf s w = Some (s', w')"
  shows "narrowed s s'"
proof (cases s)
  case (Some p)
  from assms Some obtain svcs w1 rs where
    1: "filterServicesOf svcType ns conf (Services p) w = Some (svcs, w1)"
    and 2: "filterRoutersOf svcType ns (Routers p) w1 = Some (rs, w')"
    and s': "s' = Some (p\<lparr>Services := svcs, Routers := rs\<rparr>)"
    by (auto simp: filterSection_def bind_eq_Some_conv)
  obtain seed u where "loop (filterService svcType ns conf) (permute seed (keys_of (Services p))) (Services p, u)
      = Some (svcs, w1)" using 1 by (auto simp: filterServicesOf_def split: prod.splits)
  then have "\<exists>P. svcs = filter P (Services p)"
    by (rule loop_shrinks) (auto simp: filterService_alt bind_eq_Some_conv dest!: keep_or_delete_shrinks)
  moreover obtain seed' u' where "loop (filterRouter svcType ns) (permute seed' (Routers p)) (Routers p, u')
      = Some (rs, w')" using 2 by (auto simp: filterRoutersOf_def split: prod.splits)
  then have "\<exists>Q. rs = filter Q (Routers p)"
    by (rule loop_shrinks)
       (auto simp: filterRouter_alt bind_eq_Some_conv dest!: keep_or_delete_shrinks split: prod.splits)
  ultimately show ?thesis using s' Some by (auto simp: narrowed_def)
qed (use assms in \<open>simp add: filterSection_def narrowed_def\<close>)

lemma filterServices_narrows:
  assumes "filterServices ns conf w = Some (conf', w')"
  shows "narrowed (HTTP conf) (HTTP conf') \<and> narrowed (TCP conf) (TCP conf')
    \<and> narrowed (UDP conf) (UDP conf') \<and> conf_rest conf' = conf_rest conf"
  using assms by (auto simp: filterServices_def bind_eq_Some_conv Let_def dest: filterSection_narrows)

section \<open>Properties\<close>

text \<open>
  C4: when the loaded containers determine the owner of every service and router, the filter returns
  the configuration with exactly the services and routers whose owner is in one of the namespaces
  (or that have no owner), for every order in which Go visits the maps.
\<close>

theorem filterServices_exact:
  assumes "settled D w" and "owned_configuration D conf own rown"
  shows "\<exists>w'. filterServices ns conf w = Some (filtered_configuration ns own rown conf, w') \<and> settled D w'"
  using filterServices_eq [OF assms] by blast

definition c1_of :: "labels \<Rightarrow> string \<Rightarrow> string \<Rightarrow> inspect_response option" where
  "c1_of l svcType n = (if svcType = ''http'' then Some (sample_container ''c1'' (web_labels @ l)) else None)"

theorem filterServices_exact_witness:
  "\<exists>w'. filterServices [''prod''] web_conf (sample_world (web_host [(''kop.namespace'', ''dev'')]))
     = Some (filtered_configuration [''prod''] (c1_of [(''kop.namespace'', ''dev'')])
         (c1_of [(''kop.namespace'', ''dev'')]) web_conf, w')
   \<and> settled (web_host [(''kop.namespace'', ''dev'')]) w'"
proof (rule filterServices_exact)
  show "settled (web_host [(''kop.namespace'', ''dev'')]) (sample_world (web_host [(''kop.namespace'', ''dev'')]))"
    by (rule sample_settled) code_simp+
  show "owned_configuration (web_host [(''kop.namespace'', ''dev'')]) web_conf
      (c1_of [(''kop.namespace'', ''dev'')]) (c1_of [(''kop.namespace'', ''dev'')])"
    by code_simp
qed

end
