(* ===== verification/GoNet.thy ===== *)
theory GoNet
  imports GoStrings
begin

text \<open>
  The functions of the Go packages \<open>net\<close> and \<open>net/url\<close> that the IP replacement calls:
  \<open>net.SplitHostPort\<close>, \<open>url.Parse\<close>, \<open>URL.Port\<close> and \<open>URL.String\<close>, with the percent
  encoding rules they use. An error of the library is \<open>None\<close>. The one check of the library that
  is left out is that a host in square brackets is an IPv6 address.

  The lemma at the end is what the replacement relies on: for a URL of plain characters, parsing,
  setting the host and printing replaces the host and port and keeps the rest.
\<close>

section \<open>net.SplitHostPort\<close>

definition index_of :: "char \<Rightarrow> string \<Rightarrow> nat option" where
  "index_of c s = (if c \<in> set s then Some (length (takeWhile (\<lambda>x. x \<noteq> c) s)) else None)"

definition last_index_of :: "char \<Rightarrow> string \<Rightarrow> nat option" where
  "last_index_of c s = map_option (\<lambda>i. length s - Suc i) (index_of c (rev s))"

definition SplitHostPort :: "string \<Rightarrow> (string \<times> string) option" where
  "SplitHostPort hostport =
     (case last_index_of CHR '':'' hostport of
        None \<Rightarrow> None
      | Some i \<Rightarrow>
          (let r = (if hd hostport = CHR ''[''
                    then (case index_of CHR '']'' hostport of
                            None \<Rightarrow> None
                          | Some e \<Rightarrow> if Suc e = i then Some (take (e - 1) (drop 1 hostport), 1, Suc e)
                                      else None)
                    else if CHR '':'' \<in> set (take i hostport) then None
                    else Some (take i hostport, 0, 0))
           in case r of
                None \<Rightarrow> None
              | Some (host, j, k) \<Rightarrow>
                  if CHR ''['' \<in> set (drop j hostport) \<or> CHR '']'' \<in> set (drop k hostport) then None
                  else Some (host, drop (Suc i) hostport)))"

text \<open>The port part of \<open>_, port, _ = net.SplitHostPort(s)\<close>: empty on an error.\<close>

definition SplitHostPort_port :: "string \<Rightarrow> string" where
  "SplitHostPort_port s = (case SplitHostPort s of None \<Rightarrow> [] | Some (_, p) \<Rightarrow> p)"

section \<open>Percent encoding\<close>

datatype encoding = encodePath | encodeHost | encodeUserPassword | encodeFragment

definition is_alnum :: "char \<Rightarrow> bool" where
  "is_alnum c \<longleftrightarrow> (let n = of_char c :: nat
     in (48 \<le> n \<and> n \<le> 57) \<or> (65 \<le> n \<and> n \<le> 90) \<or> (97 \<le> n \<and> n \<le> 122))"

definition shouldEscape :: "encoding \<Rightarrow> char \<Rightarrow> bool" where
  "shouldEscape mode c =
     (if is_alnum c then False
      else if mode = encodeHost \<and> c \<in> set (CHR 34 # CHR 39 # ''!$&()*+,;=:[]<>'') then False
      else if c \<in> set ''-_.~'' then False
      else if c \<in> set ''$&+,/:;=?@'' \<and> mode = encodePath then c = CHR ''?''
      else if c \<in> set ''$&+,/:;=?@'' \<and> mode = encodeUserPassword then c \<in> set ''@/?:''
      else if c \<in> set ''$&+,/:;=?@'' \<and> mode = encodeFragment then False
      else if mode = encodeFragment \<and> c \<in> set ''!()*'' then False
      else True)"

definition ishex :: "char \<Rightarrow> bool" where
  "ishex c \<longleftrightarrow> (let n = of_char c :: nat
     in (48 \<le> n \<and> n \<le> 57) \<or> (65 \<le> n \<and> n \<le> 70) \<or> (97 \<le> n \<and> n \<le> 102))"

definition unhex :: "char \<Rightarrow> nat" where
  "unhex c = (let n = of_char c :: nat
     in if n \<le> 57 then n - 48 else if n \<le> 70 then n - 55 else n - 87)"

definition upperhex :: "nat \<Rightarrow> char" where
  "upperhex n = (if n < 10 then char_of (48 + n) else char_of (55 + n))"

fun unescape :: "encoding \<Rightarrow> string \<Rightarrow> string option" where
  "unescape mode [] = Some []"
| "unescape mode (c # s) =
     (if c = CHR ''%''
      then (case s of
              a # b # r \<Rightarrow>
                if ishex a \<and> ishex b
                   \<and> \<not> (mode = encodeHost \<and> unhex a < 8 \<and> \<not> (a = CHR ''2'' \<and> b = CHR ''5''))
                then map_option (Cons (char_of (16 * unhex a + unhex b))) (unescape mode r)
                else None
            | _ \<Rightarrow> None)
      else if mode = encodeHost \<and> (of_char c :: nat) < 128 \<and> shouldEscape mode c then None
      else map_option (Cons c) (unescape mode s))"

definition escape :: "encoding \<Rightarrow> string \<Rightarrow> string" where
  "escape mode s =
     concat (map (\<lambda>c. if shouldEscape mode c
                       then [CHR ''%'', upperhex (of_char c div 16), upperhex (of_char c mod 16)]
                       else [c]) s)"

definition validEncoded :: "encoding \<Rightarrow> string \<Rightarrow> bool" where
  "validEncoded mode s =
     list_all (\<lambda>c. c \<in> set (CHR 39 # ''!$&()*+,;=:@[]%'') \<or> \<not> shouldEscape mode c) s"

section \<open>URLs\<close>

record userinfo =
  ui_username :: string
  ui_password :: "string option"

record url =
  u_Scheme :: string
  u_Opaque :: string
  u_User :: "userinfo option"
  u_Host :: string
  u_Path :: string
  u_RawPath :: string
  u_OmitHost :: bool
  u_ForceQuery :: bool
  u_RawQuery :: string
  u_Fragment :: string
  u_RawFragment :: string

definition empty_url :: url where
  "empty_url = \<lparr>u_Scheme = [], u_Opaque = [], u_User = None, u_Host = [], u_Path = [], u_RawPath = [],
     u_OmitHost = False, u_ForceQuery = False, u_RawQuery = [], u_Fragment = [], u_RawFragment = []\<rparr>"

definition Cut :: "string \<Rightarrow> char \<Rightarrow> string \<times> string" where
  "Cut s c = (takeWhile (\<lambda>x. x \<noteq> c) s, drop 1 (dropWhile (\<lambda>x. x \<noteq> c) s))"

definition is_alpha :: "char \<Rightarrow> bool" where
  "is_alpha c \<longleftrightarrow> (let n = of_char c :: nat in (65 \<le> n \<and> n \<le> 90) \<or> (97 \<le> n \<and> n \<le> 122))"

text \<open>\<open>getScheme\<close>, with the bytes already read (reversed) as an argument.\<close>

fun scan_scheme :: "string \<Rightarrow> string \<Rightarrow> string \<Rightarrow> (string \<times> string) option" where
  "scan_scheme raw seen [] = Some ([], raw)"
| "scan_scheme raw seen (c # s) =
     (if is_alpha c then scan_scheme raw (c # seen) s
      else if is_digit c \<or> c \<in> set ''+-.''
        then if seen = [] then Some ([], raw) else scan_scheme raw (c # seen) s
      else if c = CHR '':'' then if seen = [] then None else Some (rev seen, s)
      else Some ([], raw))"

definition getScheme :: "string \<Rightarrow> (string \<times> string) option" where
  "getScheme raw = scan_scheme raw [] raw"

definition validOptionalPort :: "string \<Rightarrow> bool" where
  "validOptionalPort p \<longleftrightarrow> p = [] \<or> (hd p = CHR '':'' \<and> list_all is_digit (tl p))"

definition parseHost :: "string \<Rightarrow> string option" where
  "parseHost host =
     (if HasPrefix host ''[''
      then (case last_index_of CHR '']'' host of
              None \<Rightarrow> None
            | Some i \<Rightarrow> if validOptionalPort (drop (Suc i) host) then unescape encodeHost host else None)
      else (case index_of CHR '':'' host of
              None \<Rightarrow> unescape encodeHost host
            | Some i \<Rightarrow> if validOptionalPort (drop i host) then unescape encodeHost host else None))"

definition validUserinfo :: "string \<Rightarrow> bool" where
  "validUserinfo s = list_all (\<lambda>c. is_alnum c \<or> c \<in> set (CHR 39 # ''-._:~!$&()*+,;=%@'')) s"

definition parseUser :: "string \<Rightarrow> userinfo option" where
  "parseUser s =
     (if \<not> validUserinfo s then None
      else if CHR '':'' \<notin> set s
        then map_option (\<lambda>u. \<lparr>ui_username = u, ui_password = None\<rparr>) (unescape encodeUserPassword s)
      else do {
        u \<leftarrow> unescape encodeUserPassword (fst (Cut s CHR '':''));
        p \<leftarrow> unescape encodeUserPassword (snd (Cut s CHR '':''));
        Some \<lparr>ui_username = u, ui_password = Some p\<rparr>
      })"

definition parseAuthority :: "string \<Rightarrow> (userinfo option \<times> string) option" where
  "parseAuthority a =
     (case last_index_of CHR ''@'' a of
        None \<Rightarrow> do { h \<leftarrow> parseHost a; Some (None, h) }
      | Some i \<Rightarrow> do {
          h \<leftarrow> parseHost (drop (Suc i) a);
          u \<leftarrow> parseUser (take i a);
          Some (Some u, h)
        })"

definition setPath :: "string \<Rightarrow> url \<Rightarrow> url option" where
  "setPath p u = do {
     path \<leftarrow> unescape encodePath p;
     Some (u\<lparr>u_Path := path, u_RawPath := (if p = escape encodePath path then [] else p)\<rparr>)
   }"

definition setFragment :: "string \<Rightarrow> url \<Rightarrow> url option" where
  "setFragment f u = do {
     frag \<leftarrow> unescape encodeFragment f;
     Some (u\<lparr>u_Fragment := frag, u_RawFragment := (if f = escape encodeFragment frag then [] else f)\<rparr>)
   }"

definition has_ctl :: "string \<Rightarrow> bool" where
  "has_ctl s = list_ex (\<lambda>c. (of_char c :: nat) < 32 \<or> (of_char c :: nat) = 127) s"

text \<open>The authority, when there is one, and the path.\<close>

definition parse_rest :: "string \<Rightarrow> url \<Rightarrow> url option" where
  "parse_rest rest u =
     (if (u_Scheme u \<noteq> [] \<or> \<not> HasPrefix rest ''///'') \<and> HasPrefix rest ''//''
      then do {
        let authority = takeWhile (\<lambda>c. c \<noteq> CHR ''/'') (drop 2 rest);
        let path = dropWhile (\<lambda>c. c \<noteq> CHR ''/'') (drop 2 rest);
        (user, host) \<leftarrow> parseAuthority authority;
        setPath path (u\<lparr>u_User := user, u_Host := host\<rparr>)
      }
      else if u_Scheme u \<noteq> [] \<and> HasPrefix rest ''/'' then setPath rest (u\<lparr>u_OmitHost := True\<rparr>)
      else setPath rest u)"

definition parse_url :: "string \<Rightarrow> url option" where
  "parse_url raw =
     (if has_ctl raw then None
      else if raw = ''*'' then Some (empty_url\<lparr>u_Path := ''*''\<rparr>)
      else do {
        (scheme, rest) \<leftarrow> getScheme raw;
        let force = (HasSuffix rest ''?'' \<and> count_list rest CHR ''?'' = 1);
        let query = (if force then [] else snd (Cut rest CHR ''?''));
        let rest = (if force then butlast rest else fst (Cut rest CHR ''?''));
        let u = empty_url\<lparr>u_Scheme := ToLower scheme, u_ForceQuery := force, u_RawQuery := query\<rparr>;
        if \<not> HasPrefix rest ''/'' \<and> scheme \<noteq> [] then Some (u\<lparr>u_Opaque := rest\<rparr>)
        else if \<not> HasPrefix rest ''/'' \<and> CHR '':'' \<in> set (fst (Cut rest CHR ''/'')) then None
        else parse_rest rest u
      })"

definition Parse :: "string \<Rightarrow> url option" where
  "Parse raw = do {
     u \<leftarrow> parse_url (fst (Cut raw CHR ''#''));
     let frag = snd (Cut raw CHR ''#'');
     if frag = [] then Some u else setFragment frag u
   }"

definition url_Port :: "url \<Rightarrow> string" where
  "url_Port u =
     (case last_index_of CHR '':'' (u_Host u) of
        None \<Rightarrow> []
      | Some i \<Rightarrow> if validOptionalPort (drop i (u_Host u)) then drop (Suc i) (u_Host u) else [])"

definition EscapedPath :: "url \<Rightarrow> string" where
  "EscapedPath u =
     (if u_RawPath u \<noteq> [] \<and> validEncoded encodePath (u_RawPath u)
         \<and> unescape encodePath (u_RawPath u) = Some (u_Path u) then u_RawPath u
      else if u_Path u = ''*'' then ''*''
      else escape encodePath (u_Path u))"

definition EscapedFragment :: "url \<Rightarrow> string" where
  "EscapedFragment u =
     (if u_RawFragment u \<noteq> [] \<and> validEncoded encodeFragment (u_RawFragment u)
         \<and> unescape encodeFragment (u_RawFragment u) = Some (u_Fragment u) then u_RawFragment u
      else escape encodeFragment (u_Fragment u))"

definition userinfo_String :: "userinfo \<Rightarrow> string" where
  "userinfo_String u = escape encodeUserPassword (ui_username u) @
     (case ui_password u of None \<Rightarrow> [] | Some p \<Rightarrow> '':'' @ escape encodeUserPassword p)"

definition url_authority :: "url \<Rightarrow> string" where
  "url_authority u =
     (if (u_Scheme u \<noteq> [] \<or> u_Host u \<noteq> [] \<or> u_User u \<noteq> None)
         \<and> \<not> (u_OmitHost u \<and> u_Host u = [] \<and> u_User u = None)
      then (if u_Host u \<noteq> [] \<or> u_Path u \<noteq> [] \<or> u_User u \<noteq> None then ''//'' else [])
         @ (case u_User u of None \<Rightarrow> [] | Some i \<Rightarrow> userinfo_String i @ ''@'')
         @ (if u_Host u \<noteq> [] then escape encodeHost (u_Host u) else [])
      else [])"

definition url_String :: "url \<Rightarrow> string" where
  "url_String u =
     (let scheme = (if u_Scheme u \<noteq> [] then u_Scheme u @ '':'' else []);
          path = EscapedPath u;
          hier = (if u_Opaque u \<noteq> [] then u_Opaque u
                  else let a = url_authority u;
                           a = a @ (if path \<noteq> [] \<and> hd path \<noteq> CHR ''/'' \<and> u_Host u \<noteq> [] then ''/'' else []);
                           dot = (if scheme @ a = [] \<and> CHR '':'' \<in> set (fst (Cut path CHR ''/''))
                                  then ''./'' else [])
                       in a @ dot @ path)
      in scheme @ hier
         @ (if u_ForceQuery u \<or> u_RawQuery u \<noteq> [] then ''?'' @ u_RawQuery u else [])
         @ (if u_Fragment u \<noteq> [] then ''#'' @ EscapedFragment u else []))"

lemma url_examples:
  "map_option (\<lambda>u. (url_Port u, url_String (u\<lparr>u_Host := ''4.4.4.4:8888''\<rparr>))) (Parse ''http://172.20.0.2:80'')
     = Some (''80'', ''http://4.4.4.4:8888'')"
  "map_option (\<lambda>u. (url_Port u, url_String (u\<lparr>u_Host := ''h''\<rparr>))) (Parse ''h2c://10.0.0.1/a%20b?q=1#f'')
     = Some ([], ''h2c://h/a%20b?q=1#f'')"
  "Parse ''http://a:b:80'' = None" "Parse '':x'' = None"
  "SplitHostPort ''172.18.0.2:80'' = Some (''172.18.0.2'', ''80'')" "SplitHostPort ''foobar'' = None"
  "SplitHostPort ''[::1]:53'' = Some (''::1'', ''53'')"
  by code_simp+

section \<open>Plain URLs\<close>

definition plain :: "encoding \<Rightarrow> string \<Rightarrow> bool" where
  "plain mode s = list_all (\<lambda>c. \<not> shouldEscape mode c) s"

definition plain_scheme :: "string \<Rightarrow> bool" where
  "plain_scheme s \<longleftrightarrow> s \<noteq> [] \<and> is_alpha (hd s) \<and>
     list_all (\<lambda>c. (is_alpha c \<or> is_digit c \<or> c \<in> set ''+-.'') \<and> \<not> is_upper c) s"

definition plain_host :: "string \<Rightarrow> bool" where
  "plain_host h \<longleftrightarrow> plain encodeHost h \<and> CHR '':'' \<notin> set h \<and> CHR ''['' \<notin> set h"

definition plain_path :: "string \<Rightarrow> bool" where
  "plain_path p \<longleftrightarrow> plain encodePath p \<and> (p = [] \<or> hd p = CHR ''/'')"

definition host_port_string :: "string \<Rightarrow> string \<Rightarrow> string" where
  "host_port_string h p = (if p = [] then h else h @ '':'' @ p)"

lemma escape_special:
  "shouldEscape encodeHost CHR ''/''" "shouldEscape encodeHost CHR ''?''" "shouldEscape encodeHost CHR ''#''"
  "shouldEscape encodeHost CHR ''@''" "shouldEscape encodeHost CHR ''%''" "\<not> shouldEscape encodeHost CHR '':''"
  "shouldEscape encodePath CHR ''?''" "shouldEscape encodePath CHR ''#''" "shouldEscape encodePath CHR ''%''"
  by code_simp+

lemma plain_notin: "plain mode s \<Longrightarrow> shouldEscape mode c \<Longrightarrow> c \<notin> set s"
  by (auto simp: plain_def list_all_iff)

lemma unescape_plain: "plain mode s \<Longrightarrow> CHR ''%'' \<notin> set s \<Longrightarrow> unescape mode s = Some s"
  by (induction s) (auto simp: plain_def)

lemma escape_plain: "plain mode s \<Longrightarrow> escape mode s = s"
  by (induction s) (auto simp: plain_def escape_def)

lemma digits_plain:
  assumes "list_all is_digit p"
  shows "plain encodeHost p" "CHR '':'' \<notin> set p" "CHR ''['' \<notin> set p"
proof -
  have "\<not> shouldEscape encodeHost c \<and> c \<noteq> CHR '':'' \<and> c \<noteq> CHR ''[''" if "is_digit c" for c
    using that by (auto simp: shouldEscape_def is_alnum_def is_digit_def Let_def)
  with assms show "plain encodeHost p" "CHR '':'' \<notin> set p" "CHR ''['' \<notin> set p"
    by (auto simp: plain_def list_all_iff)
qed

lemma not_ctl:
  assumes "\<not> shouldEscape mode c"
  shows "32 \<le> (of_char c :: nat) \<and> (of_char c :: nat) \<noteq> 127"
proof (rule ccontr)
  assume "\<not> ?thesis"
  then have n: "(of_char c :: nat) < 32 \<or> (of_char c :: nat) = 127" by auto
  then have "\<not> is_alnum c" by (auto simp: is_alnum_def Let_def)
  moreover have "c \<notin> set s" if "list_all (\<lambda>x. 32 \<le> (of_char x :: nat) \<and> (of_char x :: nat) \<noteq> 127) s" for s
    using that n by (auto simp: list_all_iff)
  then have "c \<notin> set (CHR 34 # CHR 39 # ''!$&()*+,;=:[]<>'')" "c \<notin> set ''-_.~''"
    "c \<notin> set ''$&+,/:;=?@''" "c \<notin> set ''!()*''" by (auto simp del: list.set)
  ultimately have "shouldEscape mode c" unfolding shouldEscape_def by (simp only: if_False simp_thms)
  with assms show False by simp
qed

lemma scheme_char:
  "is_alpha c \<or> is_digit c \<or> c \<in> set ''+-.'' \<Longrightarrow>
     c \<noteq> CHR '':'' \<and> c \<noteq> CHR ''#'' \<and> c \<noteq> CHR ''*'' \<and> 32 \<le> (of_char c :: nat) \<and> (of_char c :: nat) \<noteq> 127"
  by (auto simp: is_alpha_def is_digit_def Let_def)

lemma no_ctl_plain: "plain mode s \<Longrightarrow> \<not> has_ctl s"
  unfolding has_ctl_def by (induction s) (auto simp: plain_def dest: not_ctl)

lemma no_ctl_scheme:
  assumes "\<And>c. c \<in> set s \<Longrightarrow> is_alpha c \<or> is_digit c \<or> c \<in> set ''+-.''"
  shows "\<not> has_ctl s"
proof
  assume "has_ctl s"
  then obtain c where "c \<in> set s" "(of_char c :: nat) < 32 \<or> (of_char c :: nat) = 127"
    by (auto simp: has_ctl_def list_ex_iff)
  with scheme_char [OF assms] show False by fastforce
qed

lemma scan_scheme_plain:
  "list_all (\<lambda>c. is_alpha c \<or> is_digit c \<or> c \<in> set ''+-.'') s \<Longrightarrow>
   seen \<noteq> [] \<or> s \<noteq> [] \<and> is_alpha (hd s) \<Longrightarrow>
     scan_scheme raw seen (s @ CHR '':'' # r) = Some (rev seen @ s, r)"
proof (induction s arbitrary: seen)
  case Nil
  have "\<not> is_alpha CHR '':''" "\<not> is_digit CHR '':''" "CHR '':'' \<notin> set ''+-.''" by code_simp+
  with Nil show ?case by simp
next
  case (Cons c s)
  then have "scan_scheme raw (c # seen) (s @ CHR '':'' # r) = Some (rev (c # seen) @ s, r)"
    by (intro Cons.IH) auto
  with Cons.prems show ?case by auto
qed

lemma while_absent:
  "c \<notin> set s \<Longrightarrow> takeWhile (\<lambda>x. x \<noteq> c) s = s" "c \<notin> set s \<Longrightarrow> dropWhile (\<lambda>x. x \<noteq> c) s = []"
  by (induction s) auto

lemma Cut_absent:
  assumes "c \<notin> set s"
  shows "Cut s c = (s, [])"
  by (simp only: Cut_def while_absent [OF assms] drop_Nil)

lemma index_absent: "c \<notin> set s \<Longrightarrow> index_of c s = None" "c \<notin> set s \<Longrightarrow> last_index_of c s = None"
  by (simp_all add: index_of_def last_index_of_def)

lemma index_split:
  "c \<notin> set a \<Longrightarrow> index_of c (a @ c # b) = Some (length a)"
  "c \<notin> set b \<Longrightarrow> last_index_of c (a @ c # b) = Some (length a)"
proof -
  have t: "takeWhile (\<lambda>x. x \<noteq> c) (s @ c # r) = s" if "c \<notin> set s" for s r
    using that by (induction s) auto
  show "c \<notin> set a \<Longrightarrow> index_of c (a @ c # b) = Some (length a)"
    by (simp add: index_of_def t)
  show "c \<notin> set b \<Longrightarrow> last_index_of c (a @ c # b) = Some (length a)"
    using t [of "rev b" "rev a"] by (simp add: index_of_def last_index_of_def)
qed

lemma host_port_plain:
  assumes "plain_host h" and "list_all is_digit p"
  shows "plain encodeHost (host_port_string h p)"
  using assms digits_plain(1) [OF assms(2)] escape_special(6)
  by (auto simp: host_port_string_def plain_host_def plain_def)

lemma parseAuthority_plain:
  assumes "plain_host h" and "list_all is_digit p"
  shows "parseAuthority (host_port_string h p) = Some (None, host_port_string h p)"
proof -
  let ?a = "host_port_string h p"
  have pl: "plain encodeHost ?a" by (rule host_port_plain [OF assms])
  have "CHR ''@'' \<notin> set ?a" by (rule plain_notin [OF pl escape_special(4)])
  then have 1: "last_index_of CHR ''@'' ?a = None" by (rule index_absent)
  have un: "unescape encodeHost ?a = Some ?a"
    by (rule unescape_plain [OF pl plain_notin [OF pl escape_special(5)]])
  have "CHR ''['' \<notin> set ?a"
    using assms digits_plain [OF assms(2)] by (auto simp: host_port_string_def plain_host_def)
  then have 2: "\<not> HasPrefix ?a ''[''" using set_mono_prefix by fastforce
  have "parseHost ?a = Some ?a"
  proof (cases "p = []")
    case True
    then have "CHR '':'' \<notin> set ?a" using assms(1) by (simp add: host_port_string_def plain_host_def)
    with 2 un show ?thesis by (simp add: parseHost_def index_absent)
  next
    case False
    then have a: "?a = h @ CHR '':'' # p" by (simp add: host_port_string_def)
    have "index_of CHR '':'' ?a = Some (length h)"
      unfolding a using assms(1) by (intro index_split) (simp add: plain_host_def)
    moreover have "validOptionalPort (drop (length h) ?a)"
      unfolding a using assms(2) by (simp add: validOptionalPort_def)
    ultimately show ?thesis using 2 un by (simp add: parseHost_def)
  qed
  with 1 show ?thesis by (simp add: parseAuthority_def)
qed

definition plain_url :: "string \<Rightarrow> string \<Rightarrow> string \<Rightarrow> url" where
  "plain_url scheme authority path =
     empty_url\<lparr>u_Scheme := scheme, u_Host := authority, u_Path := path\<rparr>"

lemma setPath_plain:
  assumes "plain_path p"
  shows "setPath p u = Some (u\<lparr>u_Path := p, u_RawPath := []\<rparr>)"
proof -
  have pl: "plain encodePath p" using assms by (simp add: plain_path_def)
  have "unescape encodePath p = Some p"
    by (rule unescape_plain [OF pl plain_notin [OF pl escape_special(9)]])
  with escape_plain [OF pl] show ?thesis by (simp add: setPath_def)
qed

lemma split_authority:
  assumes "CHR ''/'' \<notin> set a" and "p = [] \<or> hd p = CHR ''/''"
  shows "takeWhile (\<lambda>c. c \<noteq> CHR ''/'') (a @ p) = a" "dropWhile (\<lambda>c. c \<noteq> CHR ''/'') (a @ p) = p"
  using assms by (induction a) (auto simp: takeWhile_eq_Nil_iff dropWhile_eq_self_iff)

lemma Parse_plain:
  assumes "plain_scheme s" and "plain_host h" and "list_all is_digit port" and "plain_path path"
  shows "Parse (s @ ''://'' @ host_port_string h port @ path) = Some (plain_url s (host_port_string h port) path)"
proof -
  let ?a = "host_port_string h port" and ?raw = "s @ ''://'' @ host_port_string h port @ path"
  let ?rest = "''//'' @ ?a @ path"
  have sc: "\<And>c. c \<in> set s \<Longrightarrow> is_alpha c \<or> is_digit c \<or> c \<in> set ''+-.''"
    using assms(1) by (auto simp: plain_scheme_def list_all_iff)
  have pa: "plain encodeHost ?a" by (rule host_port_plain [OF assms(2,3)])
  have pp: "plain encodePath path" using assms(4) by (simp add: plain_path_def)
  have ctl: "\<not> has_ctl ?raw"
    using no_ctl_scheme [OF sc] no_ctl_plain [OF pa] no_ctl_plain [OF pp] by (simp add: has_ctl_def)
  have q: "CHR ''?'' \<notin> set ?rest"
    using plain_notin [OF pa escape_special(2)] plain_notin [OF pp escape_special(7)] by simp
  have "CHR ''#'' \<notin> set ?raw"
    using plain_notin [OF pa escape_special(3)] plain_notin [OF pp escape_special(8)] scheme_char [OF sc] by auto
  then have cut: "Cut ?raw CHR ''#'' = (?raw, [])" by (rule Cut_absent)
  have star: "?raw \<noteq> ''*''" by (auto simp: append_eq_Cons_conv)
  have scheme: "getScheme ?raw = Some (s, ?rest)"
    using assms(1) scan_scheme_plain [of s "[]" ?raw ?rest]
    by (simp add: getScheme_def plain_scheme_def list_all_iff)
  have low: "ToLower s = s" using assms(1) by (intro ToLower_id) (auto simp: plain_scheme_def list_all_iff)
  have nq: "\<not> HasSuffix ?rest ''?''" using q set_mono_suffix by fastforce
  have ne: "s \<noteq> []" using assms(1) by (simp add: plain_scheme_def)
  have slash: "CHR ''/'' \<notin> set ?a" by (rule plain_notin [OF pa escape_special(1)])
  have "parse_rest ?rest (empty_url\<lparr>u_Scheme := s\<rparr>) = Some (plain_url s ?a path)"
    using ne parseAuthority_plain [OF assms(2,3)] setPath_plain [OF assms(4)]
      split_authority [OF slash, of path] assms(4)
    by (simp add: parse_rest_def plain_path_def plain_url_def empty_url_def)
  then have "parse_url ?raw = Some (plain_url s ?a path)"
    using ctl star scheme low nq Cut_absent [OF q]
    by (simp add: parse_url_def empty_url_def)
  with cut show ?thesis by (simp add: Parse_def)
qed

lemma url_Port_plain:
  assumes "plain_host h" and "list_all is_digit port"
  shows "url_Port (plain_url s (host_port_string h port) path) = port"
proof (cases "port = []")
  case True
  with assms(1) show ?thesis
    by (simp add: url_Port_def plain_url_def host_port_string_def plain_host_def index_absent)
next
  case False
  have "last_index_of CHR '':'' (h @ CHR '':'' # port) = Some (length h)"
    by (rule index_split) (rule digits_plain [OF assms(2)])
  with False assms(2) show ?thesis
    by (simp add: url_Port_def plain_url_def host_port_string_def validOptionalPort_def)
qed

lemma url_String_plain:
  assumes "s \<noteq> []" and "plain encodeHost a" and "a \<noteq> []" and "plain_path path"
  shows "url_String (plain_url s b path\<lparr>u_Host := a\<rparr>) = s @ ''://'' @ a @ path"
proof -
  have "path \<noteq> ''*''" using assms(4) by (auto simp: plain_path_def)
  moreover have "escape encodePath path = path" using assms(4) by (simp add: plain_path_def escape_plain)
  moreover have "escape encodeHost a = a" using assms(2) by (rule escape_plain)
  ultimately show ?thesis using assms(1,3,4)
    by (simp add: url_String_def EscapedPath_def url_authority_def plain_url_def empty_url_def
        plain_path_def Let_def)
qed

end
