(* ===== verification/Replace.thy ===== *)
theory Replace
  imports Namespaces GoNet
begin

text \<open>
  The replacement of the addresses in a configuration (\<^verbatim>\<open>traefik_kop.go\<close>, \<open>replaceIPs\<close>).

  The three loops visit the services of a section in an order the run time picks and rewrite the
  servers of each load balancer. The HTTP loop declares its own \<open>ip\<close> for every server; the TCP and
  UDP loops assign the parameter \<open>ip\<close> of \<open>replaceIPs\<close>, which is therefore part of the state that
  is carried from server to server and from the TCP loop to the UDP loop.
\<close>

section \<open>The replacement\<close>

text \<open>A loop over the elements of a slice, each assigned in place.\<close>

fun each_server :: "('srv \<Rightarrow> 'st \<Rightarrow> ('srv \<times> 'st) option) \<Rightarrow> 'srv list \<Rightarrow> 'st \<Rightarrow> ('srv list \<times> 'st) option" where
  "each_server f [] st = Some ([], st)"
| "each_server f (x # xs) st = do {
     (y, st) \<leftarrow> f x st;
     (ys, st) \<leftarrow> each_server f xs st;
     Some (y # ys, st)
   }"

definition replaceService :: "(string \<Rightarrow> 'srv \<Rightarrow> 'st \<Rightarrow> ('srv \<times> 'st) option) \<Rightarrow> string \<times> 'srv service option
    \<Rightarrow> 'srv service_map \<times> 'st \<Rightarrow> ('srv service_map \<times> 'st) option" where
  "replaceService replaceServer = (\<lambda>(svcName, svc) (svcs, st). do {
     s \<leftarrow> svc;
     lb \<leftarrow> LoadBalancer s;
     (servers, st) \<leftarrow> each_server (replaceServer svcName) (lb_Servers lb) st;
     Some (AList.update svcName (Some (s\<lparr>LoadBalancer := Some (lb\<lparr>lb_Servers := servers\<rparr>)\<rparr>)) svcs, st)
   })"

definition with_port :: "string \<Rightarrow> string \<Rightarrow> string" where
  "with_port ip port = (if port \<noteq> [] then ip @ '':'' @ port else ip)"

definition replaceHTTPServer :: "configuration \<Rightarrow> string \<Rightarrow> string \<Rightarrow> http_server \<Rightarrow> world
    \<Rightarrow> (http_server \<times> world) option" where
  "replaceHTTPServer conf ip svcName server w = do {
     ((ip, changed), w) \<leftarrow> getKopOverrideBinding conf ''http'' svcName ip w;
     (ip, w) \<leftarrow> (if \<not> changed then getContainerNetworkIP conf ''http'' svcName ip w else Some (ip, w));
     if srv_URL server \<noteq> [] then do {
       u \<leftarrow> Parse (srv_URL server);
       (p, w) \<leftarrow> getContainerPort conf ''http'' svcName (url_Port u) w;
       Some (server\<lparr>srv_URL := url_String (u\<lparr>u_Host := with_port ip p\<rparr>)\<rparr>, w)
     } else do {
       let scheme = (if srv_Scheme server \<noteq> [] then srv_Scheme server else ''http'');
       (port, w) \<leftarrow> getContainerPort conf ''http'' svcName (srv_Port server) w;
       Some (server\<lparr>srv_URL := scheme @ ''://'' @ with_port ip port\<rparr>, w)
     }
   }"

text \<open>The loop over the routers that only writes to the log reads every router.\<close>

definition log_routers :: "router_map \<Rightarrow> unit option" where
  "log_routers rs = (if list_all (\<lambda>(_, r). r \<noteq> None) rs then Some () else None)"

definition replaceHTTPService :: "configuration \<Rightarrow> string \<Rightarrow> router_map \<Rightarrow> string \<times> http_server service option
    \<Rightarrow> http_server service_map \<times> world \<Rightarrow> (http_server service_map \<times> world) option" where
  "replaceHTTPService conf ip rs svc st = do {
     st \<leftarrow> replaceService (replaceHTTPServer conf ip) svc st;
     _ \<leftarrow> log_routers rs;
     Some st
   }"

definition replaceHTTP :: "configuration \<Rightarrow> string \<Rightarrow> http_server proto option \<Rightarrow> world
    \<Rightarrow> (http_server proto option \<times> world) option" where
  "replaceHTTP conf ip s w =
     (case s of
        None \<Rightarrow> Some (None, w)
      | Some p \<Rightarrow> do {
          let (seed, w) = next_seed w;
          (svcs, w) \<leftarrow> loop (replaceHTTPService conf ip (Routers p)) (permute seed (Services p)) (Services p, w);
          Some (Some (p\<lparr>Services := svcs\<rparr>), w)
        })"

text \<open>A TCP or UDP server; the state is the variable \<open>ip\<close> and the world.\<close>

definition replaceL4Server :: "configuration \<Rightarrow> string \<Rightarrow> string \<Rightarrow> l4_server \<Rightarrow> string \<times> world
    \<Rightarrow> (l4_server \<times> string \<times> world) option" where
  "replaceL4Server conf svcType svcName server = (\<lambda>(ip, w). do {
     (ip, w) \<leftarrow> getContainerNetworkIP conf svcType svcName ip w;
     let port = (if l4_Port server = [] then SplitHostPort_port (l4_Address server) else l4_Port server);
     (port, w) \<leftarrow> getContainerPort conf svcType svcName port w;
     Some (server\<lparr>l4_Port := port, l4_Address := with_port ip port\<rparr>, ip, w)
   })"

definition replaceL4 :: "configuration \<Rightarrow> string \<Rightarrow> l4_server proto option \<Rightarrow> string \<times> world
    \<Rightarrow> (l4_server proto option \<times> string \<times> world) option" where
  "replaceL4 conf svcType s = (\<lambda>(ip, w).
     case s of
        None \<Rightarrow> Some (None, ip, w)
      | Some p \<Rightarrow> do {
          let (seed, w) = next_seed w;
          (svcs, st) \<leftarrow> loop (replaceService (replaceL4Server conf svcType)) (permute seed (Services p))
                          (Services p, ip, w);
          Some (Some (p\<lparr>Services := svcs\<rparr>), st)
        })"

definition replaceIPs :: "string \<Rightarrow> configuration \<Rightarrow> world \<Rightarrow> (configuration \<times> world) option" where
  "replaceIPs ip conf w = do {
     (http, w) \<leftarrow> replaceHTTP conf ip (HTTP conf) w;
     let conf = conf\<lparr>HTTP := http\<rparr>;
     (tcp, ip, w) \<leftarrow> replaceL4 conf ''tcp'' (TCP conf) (ip, w);
     let conf = conf\<lparr>TCP := tcp\<rparr>;
     (udp, ip, w) \<leftarrow> replaceL4 conf ''udp'' (UDP conf) (ip, w);
     Some (conf\<lparr>UDP := udp\<rparr>, w)
   }"

section \<open>What a server becomes\<close>

text \<open>The address of an HTTP service: the override label, else the network, else the host.\<close>

definition http_address :: "inspect_response option \<Rightarrow> string \<Rightarrow> string \<Rightarrow> string" where
  "http_address ow svcName ip =
     (let (a, changed) = resolved_bind ow svcName ip in if changed then a else resolved_network ow ip)"

definition published_http :: "inspect_response option \<Rightarrow> string \<Rightarrow> string \<Rightarrow> http_server \<Rightarrow> http_server option" where
  "published_http ow ip svcName server =
     (if srv_URL server \<noteq> [] then do {
        u \<leftarrow> Parse (srv_URL server);
        p \<leftarrow> resolved_port ow ''http'' svcName (url_Port u);
        Some (server\<lparr>srv_URL := url_String (u\<lparr>u_Host := with_port (http_address ow svcName ip) p\<rparr>)\<rparr>)
      } else do {
        p \<leftarrow> resolved_port ow ''http'' svcName (srv_Port server);
        Some (server\<lparr>srv_URL := (if srv_Scheme server \<noteq> [] then srv_Scheme server else ''http'')
          @ ''://'' @ with_port (http_address ow svcName ip) p\<rparr>)
      })"

definition published_l4 :: "inspect_response option \<Rightarrow> string \<Rightarrow> string \<Rightarrow> string \<Rightarrow> l4_server
    \<Rightarrow> l4_server option" where
  "published_l4 ow svcType ip svcName server = do {
     p \<leftarrow> resolved_port ow svcType svcName
           (if l4_Port server = [] then SplitHostPort_port (l4_Address server) else l4_Port server);
     Some (server\<lparr>l4_Port := p, l4_Address := with_port ip p\<rparr>)
   }"

definition published_service :: "('srv \<Rightarrow> 'srv option) \<Rightarrow> 'srv service option \<Rightarrow> 'srv service option option" where
  "published_service f svc = do {
     s \<leftarrow> svc;
     lb \<leftarrow> LoadBalancer s;
     servers \<leftarrow> those (map f (lb_Servers lb));
     Some (Some (s\<lparr>LoadBalancer := Some (lb\<lparr>lb_Servers := servers\<rparr>)\<rparr>))
   }"

definition published_section :: "(string \<Rightarrow> 'srv \<Rightarrow> 'srv option) \<Rightarrow> 'srv proto option \<Rightarrow> 'srv proto option option" where
  "published_section f s =
     (case s of
        None \<Rightarrow> Some None
      | Some p \<Rightarrow> map_option (\<lambda>svcs. Some (p\<lparr>Services := svcs\<rparr>))
          (map_entries (\<lambda>n. published_service (f n)) (Services p)))"

lemma each_server_eq:
  assumes "I st" and "\<And>x u. I u \<Longrightarrow> \<exists>u'. I u' \<and> f x u = map_option (\<lambda>y. (y, u')) (g x)"
  shows "\<exists>st'. I st' \<and> each_server f xs st = map_option (\<lambda>ys. (ys, st')) (those (map g xs))"
  using assms(1)
proof (induction xs arbitrary: st)
  case (Cons x xs)
  obtain u where u: "I u" "f x st = map_option (\<lambda>y. (y, u)) (g x)" using assms(2) [OF Cons.prems] by blast
  obtain st' where "I st'" "each_server f xs u = map_option (\<lambda>ys. (ys, st')) (those (map g xs))"
    using Cons.IH [OF u(1)] by blast
  with u show ?case by (cases "g x"; cases "those (map g xs)") auto
qed auto

lemma replaceService_eq:
  assumes "I st" and "\<And>x u. I u \<Longrightarrow> \<exists>u'. I u' \<and> f n x u = map_option (\<lambda>y. (y, u')) (g n x)"
  shows "\<exists>st'. I st' \<and> replaceService f (n, svc) (svcs, st)
    = map_option (\<lambda>v. (AList.update n v svcs, st')) (published_service (g n) svc)"
proof (cases "\<exists>s lb. svc = Some s \<and> LoadBalancer s = Some lb")
  case True
  then obtain s lb where s: "svc = Some s" "LoadBalancer s = Some lb" by blast
  obtain st' where st': "I st'"
    "each_server (f n) (lb_Servers lb) st = map_option (\<lambda>ys. (ys, st')) (those (map (g n) (lb_Servers lb)))"
    using each_server_eq [where I = I, OF assms(1), of "f n" "g n" "lb_Servers lb"] assms(2) by blast
  then show ?thesis using s
    by (cases "those (map (g n) (lb_Servers lb))") (auto simp: replaceService_def published_service_def)
next
  case False
  with assms(1) show ?thesis
    by (intro exI [of _ st])
       (cases svc; auto simp: replaceService_def published_service_def bind_eq_None_conv)
qed

lemma replaceHTTPServer_eq:
  assumes "settled D w" and "resolves D conf ''http'' n ow"
  shows "\<exists>w'. settled D w' \<and>
    replaceHTTPServer conf ip n server w = map_option (\<lambda>s. (s, w')) (published_http ow ip n server)"
proof -
  obtain w1 where w1: "settled D w1"
    "getKopOverrideBinding conf ''http'' n ip w = Some (resolved_bind ow n ip, w1)"
    using getKopOverrideBinding_resolved [OF assms] by blast
  obtain a changed where b: "resolved_bind ow n ip = (a, changed)" by fastforce
  then have a: "a = ip" if "\<not> changed" using that by (auto simp: resolved_bind_def split: option.splits)
  obtain w2 where w2: "settled D w2"
    "(if \<not> changed then getContainerNetworkIP conf ''http'' n a w1 else Some (a, w1))
       = Some (http_address ow n ip, w2)"
    using getContainerNetworkIP_resolved [OF w1(1) assms(2)] w1(1) b a
    by (cases changed) (auto simp: http_address_def)
  have p: "\<exists>w3. settled D w3 \<and> getContainerPort conf ''http'' n q w2
      = map_option (\<lambda>p. (p, w3)) (resolved_port ow ''http'' n q)" for q
    by (rule getContainerPort_resolved [OF w2(1) assms(2)])
  show ?thesis
  proof (cases "srv_URL server = []")
    case True
    obtain w3 where "settled D w3" "getContainerPort conf ''http'' n (srv_Port server) w2
      = map_option (\<lambda>p. (p, w3)) (resolved_port ow ''http'' n (srv_Port server))" using p by blast
    with w1 w2 b True show ?thesis
      by (intro exI [of _ w3]) (cases "resolved_port ow ''http'' n (srv_Port server)";
        simp add: replaceHTTPServer_def published_http_def Let_def)
  next
    case False
    show ?thesis
    proof (cases "Parse (srv_URL server)")
      case None
      with w1 w2 b False show ?thesis
        by (intro exI [of _ w1]) (simp add: replaceHTTPServer_def published_http_def)
    next
      case (Some u)
      obtain w3 where "settled D w3" "getContainerPort conf ''http'' n (url_Port u) w2
        = map_option (\<lambda>p. (p, w3)) (resolved_port ow ''http'' n (url_Port u))" using p by blast
      with w1 w2 b False Some show ?thesis
        by (intro exI [of _ w3]) (cases "resolved_port ow ''http'' n (url_Port u)";
          simp add: replaceHTTPServer_def published_http_def)
    qed
  qed
qed

lemma replaceL4Server_eq:
  assumes "settled D w" and "resolves D conf svcType n ow" and "resolved_network ow ip = ip"
  shows "\<exists>w'. settled D w' \<and>
    replaceL4Server conf svcType n server (ip, w)
      = map_option (\<lambda>s. (s, ip, w')) (published_l4 ow svcType ip n server)"
proof -
  let ?q = "if l4_Port server = [] then SplitHostPort_port (l4_Address server) else l4_Port server"
  obtain w1 where w1: "settled D w1" "getContainerNetworkIP conf svcType n ip w = Some (ip, w1)"
    using getContainerNetworkIP_resolved [OF assms(1,2)] assms(3) by metis
  obtain w2 where w2: "settled D w2" "getContainerPort conf svcType n ?q w1
      = map_option (\<lambda>p. (p, w2)) (resolved_port ow svcType n ?q)"
    using getContainerPort_resolved [OF w1(1) assms(2)] by blast
  with w1 show ?thesis
    by (intro exI [of _ w2]) (cases "resolved_port ow svcType n ?q";
      simp add: replaceL4Server_def published_l4_def Let_def)
qed

section \<open>What a configuration becomes\<close>

lemma replaceHTTP_eq:
  assumes "settled D w" and "wf_section s"
    and "\<And>n. n \<in> set (keys_of (services s)) \<Longrightarrow> resolves D conf ''http'' n (own n)"
  shows "\<exists>w'. settled D w' \<and> replaceHTTP conf ip s w
    = map_option (\<lambda>s'. (s', w')) (published_section (\<lambda>n. published_http (own n) ip n) s)"
proof (cases s)
  case None
  with assms(1) show ?thesis by (auto simp: replaceHTTP_def published_section_def)
next
  case (Some p)
  let ?g = "\<lambda>n. published_service (published_http (own n) ip n)"
  obtain seed u where u: "next_seed w = (seed, u)" by fastforce
  have wf: "wf_map (Services p)" "log_routers (Routers p) = Some ()"
    using assms(2) Some by (simp_all add: wf_proto_def log_routers_def)
  have step: "\<exists>v'. settled D v' \<and> replaceHTTPService conf ip (Routers p) (n, svc) (m, v)
      = map_option (\<lambda>x. (AList.update n x m, v')) (?g n svc)"
    if e: "(n, svc) \<in> set (Services p)" and v: "settled D v" for n svc m v
  proof -
    have "n \<in> set (keys_of (services s))" using e Some by force
    note r = assms(3) [OF this]
    have "\<exists>v'. settled D v' \<and> replaceService (replaceHTTPServer conf ip) (n, svc) (m, v)
        = map_option (\<lambda>x. (AList.update n x m, v')) (?g n svc)"
      by (rule replaceService_eq [where I = "settled D" and g = "\<lambda>n. published_http (own n) ip n", OF v])
         (rule replaceHTTPServer_eq [OF _ r])
    then show ?thesis using wf(2)
      by (auto simp: replaceHTTPService_def bind_eq_None_conv option.map_comp split: option.splits)
  qed
  obtain w' where "settled D w'" "loop (replaceHTTPService conf ip (Routers p)) (permute seed (Services p))
      (Services p, u) = map_option (\<lambda>m'. (m', w')) (map_entries ?g (Services p))"
    using loop_map_entries [where I = "settled D", OF settled_next_seed [OF assms(1) u] wf(1) step] by blast
  with u Some show ?thesis
    by (intro exI [of _ w']) (cases "map_entries ?g (Services p)";
      simp add: replaceHTTP_def published_section_def)
qed

lemma replaceL4_eq:
  assumes "settled D w" and "wf_section s"
    and "\<And>n. n \<in> set (keys_of (services s)) \<Longrightarrow>
      resolves D conf svcType n (own n) \<and> resolved_network (own n) ip = ip"
  shows "\<exists>w'. settled D w' \<and> replaceL4 conf svcType s (ip, w)
    = map_option (\<lambda>s'. (s', ip, w')) (published_section (\<lambda>n. published_l4 (own n) svcType ip n) s)"
proof (cases s)
  case None
  with assms(1) show ?thesis by (auto simp: replaceL4_def published_section_def)
next
  case (Some p)
  let ?g = "\<lambda>n. published_service (published_l4 (own n) svcType ip n)"
  let ?I = "\<lambda>(ip', w). ip' = ip \<and> settled D w"
  obtain seed u where u: "next_seed w = (seed, u)" by fastforce
  have wf: "wf_map (Services p)" using assms(2) Some by (simp add: wf_proto_def)
  have server: "\<exists>st'. ?I st' \<and> replaceL4Server conf svcType n x st
      = map_option (\<lambda>y. (y, st')) (published_l4 (own n) svcType ip n x)"
    if n: "n \<in> set (keys_of (services s))" and st: "?I st" for n x st
  proof -
    from st obtain v where v: "st = (ip, v)" "settled D v" by auto
    from replaceL4Server_eq [OF v(2), of conf svcType n "own n" ip x] assms(3) [OF n] v(1)
    show ?thesis by fastforce
  qed
  have step: "\<exists>st'. ?I st' \<and> replaceService (replaceL4Server conf svcType) (n, svc) (m, st)
      = map_option (\<lambda>x. (AList.update n x m, st')) (?g n svc)"
    if e: "(n, svc) \<in> set (Services p)" and st: "?I st" for n svc m st
  proof -
    have n: "n \<in> set (keys_of (services s))" using e Some by force
    show ?thesis
      by (rule replaceService_eq [where I = ?I and g = "\<lambda>n. published_l4 (own n) svcType ip n", OF st])
         (rule server [OF n])
  qed
  have "?I (ip, u)" using settled_next_seed [OF assms(1) u] by simp
  from loop_map_entries [where I = ?I, OF this wf step] obtain w' where
    "settled D w'" "loop (replaceService (replaceL4Server conf svcType)) (permute seed (Services p))
      (Services p, ip, u) = map_option (\<lambda>m'. (m', ip, w')) (map_entries ?g (Services p))"
    by fastforce
  with u Some show ?thesis
    by (intro exI [of _ w']) (cases "map_entries ?g (Services p)";
      simp add: replaceL4_def published_section_def)
qed

definition published_configuration :: "(string \<Rightarrow> string \<Rightarrow> inspect_response option) \<Rightarrow> string
    \<Rightarrow> configuration \<Rightarrow> configuration option" where
  "published_configuration own ip conf = do {
     http \<leftarrow> published_section (\<lambda>n. published_http (own ''http'' n) ip n) (HTTP conf);
     tcp \<leftarrow> published_section (\<lambda>n. published_l4 (own ''tcp'' n) ''tcp'' ip n) (TCP conf);
     udp \<leftarrow> published_section (\<lambda>n. published_l4 (own ''udp'' n) ''udp'' ip n) (UDP conf);
     Some (conf\<lparr>HTTP := http, TCP := tcp, UDP := udp\<rparr>)
   }"

text \<open>Every service resolves; no TCP or UDP service lives on a routable container network.\<close>

definition resolvable :: "(string, inspect_response) gomap \<Rightarrow> configuration
    \<Rightarrow> (string \<Rightarrow> string \<Rightarrow> inspect_response option) \<Rightarrow> string \<Rightarrow> bool" where
  "resolvable D conf own ip \<longleftrightarrow>
     (\<forall>n \<in> set (keys_of (services (HTTP conf))). resolves D conf ''http'' n (own ''http'' n))
     \<and> (\<forall>n \<in> set (keys_of (services (TCP conf))). resolves D conf ''tcp'' n (own ''tcp'' n)
          \<and> resolved_network (own ''tcp'' n) ip = ip)
     \<and> (\<forall>n \<in> set (keys_of (services (UDP conf))). resolves D conf ''udp'' n (own ''udp'' n)
          \<and> resolved_network (own ''udp'' n) ip = ip)"

lemma replaceIPs_eq:
  assumes "settled D w" and "wf_configuration conf" and "resolvable D conf own ip"
  shows "\<exists>w'. settled D w' \<and>
    replaceIPs ip conf w = map_option (\<lambda>c. (c, w')) (published_configuration own ip conf)"
proof -
  let ?h = "published_section (\<lambda>n. published_http (own ''http'' n) ip n) (HTTP conf)"
  let ?t = "published_section (\<lambda>n. published_l4 (own ''tcp'' n) ''tcp'' ip n) (TCP conf)"
  let ?u = "published_section (\<lambda>n. published_l4 (own ''udp'' n) ''udp'' ip n) (UDP conf)"
  have wf: "wf_section (HTTP conf)" "wf_section (TCP conf)" "wf_section (UDP conf)"
    using assms(2) by (simp_all add: wf_configuration_def)
  note r = assms(3) [unfolded resolvable_def]
  obtain w1 where w1: "settled D w1"
    "replaceHTTP conf ip (HTTP conf) w = map_option (\<lambda>s'. (s', w1)) ?h"
    using replaceHTTP_eq [OF assms(1) wf(1), where own = "own ''http''" and conf = conf and ip = ip] r by blast
  have tcp: "\<exists>w2. settled D w2 \<and> replaceL4 (conf\<lparr>HTTP := h\<rparr>) ''tcp'' (TCP conf) (ip, w1)
      = map_option (\<lambda>s'. (s', ip, w2)) ?t" for h
    by (rule replaceL4_eq [OF w1(1) wf(2)]) (use r in \<open>auto simp: resolves_cong [of _ "conf\<lparr>HTTP := h\<rparr>" conf]\<close>)
  show ?thesis
  proof (cases ?h)
    case None
    with w1 show ?thesis by (auto simp: replaceIPs_def published_configuration_def)
  next
    case h: (Some h)
    obtain w2 where w2: "settled D w2" "replaceL4 (conf\<lparr>HTTP := h\<rparr>) ''tcp'' (TCP conf) (ip, w1)
      = map_option (\<lambda>s'. (s', ip, w2)) ?t" using tcp by blast
    have udp: "\<exists>w3. settled D w3 \<and> replaceL4 (conf\<lparr>HTTP := h, TCP := t\<rparr>) ''udp'' (UDP conf) (ip, w2)
        = map_option (\<lambda>s'. (s', ip, w3)) ?u" for t
      by (rule replaceL4_eq [OF w2(1) wf(3)])
         (use r in \<open>auto simp: resolves_cong [of _ "conf\<lparr>HTTP := h, TCP := t\<rparr>" conf]\<close>)
    show ?thesis
    proof (cases ?t)
      case None
      with w1 w2 h show ?thesis by (auto simp: replaceIPs_def published_configuration_def Let_def)
    next
      case (Some t)
      obtain w3 where "settled D w3" "replaceL4 (conf\<lparr>HTTP := h, TCP := t\<rparr>) ''udp'' (UDP conf) (ip, w2)
        = map_option (\<lambda>s'. (s', ip, w3)) ?u" using udp by blast
      with w1 w2 h Some show ?thesis
        by (intro exI [of _ w3]) (cases ?u; simp add: replaceIPs_def published_configuration_def Let_def)
    qed
  qed
qed

section \<open>The frame of the replacement\<close>

text \<open>
  Whatever the daemon answers, only the URL of an HTTP server and the address and port of a TCP or
  UDP server change.
\<close>

definition same_http :: "http_server \<Rightarrow> http_server \<Rightarrow> bool" where
  "same_http s s' \<longleftrightarrow> s' = s\<lparr>srv_URL := srv_URL s'\<rparr>"

definition same_l4 :: "l4_server \<Rightarrow> l4_server \<Rightarrow> bool" where
  "same_l4 s s' \<longleftrightarrow> s' = s\<lparr>l4_Address := l4_Address s', l4_Port := l4_Port s'\<rparr>"

definition same_service :: "('srv \<Rightarrow> 'srv \<Rightarrow> bool) \<Rightarrow> 'srv service option \<Rightarrow> 'srv service option \<Rightarrow> bool" where
  "same_service R v v' \<longleftrightarrow> v' = v \<or> (\<exists>s lb servers. v = Some s \<and> LoadBalancer s = Some lb
     \<and> list_all2 R (lb_Servers lb) servers
     \<and> v' = Some (s\<lparr>LoadBalancer := Some (lb\<lparr>lb_Servers := servers\<rparr>)\<rparr>))"

definition same_services :: "('srv \<Rightarrow> 'srv \<Rightarrow> bool) \<Rightarrow> 'srv service_map \<Rightarrow> 'srv service_map \<Rightarrow> bool" where
  "same_services R m m' = list_all2 (\<lambda>(n, v) (n', v'). n' = n \<and> same_service R v v') m m'"

definition same_section :: "('srv \<Rightarrow> 'srv \<Rightarrow> bool) \<Rightarrow> 'srv proto option \<Rightarrow> 'srv proto option \<Rightarrow> bool" where
  "same_section R s s' =
     (case s of None \<Rightarrow> s' = None
      | Some p \<Rightarrow> \<exists>m. s' = Some (p\<lparr>Services := m\<rparr>) \<and> same_services R (Services p) m)"

lemma each_server_frame:
  assumes "\<And>x st y st'. f x st = Some (y, st') \<Longrightarrow> R x y"
  shows "each_server f xs st = Some (ys, st') \<Longrightarrow> list_all2 R xs ys"
  by (induction xs arbitrary: st ys) (auto simp: bind_eq_Some_conv dest: assms)

lemma same_services_refl: "same_services R m m"
  by (auto simp: same_services_def same_service_def intro!: list_all2_refl)

lemma same_services_keys: "same_services R m m' \<Longrightarrow> keys_of m' = keys_of m"
  unfolding same_services_def by (induction rule: list_all2_induct) auto

lemma same_services_update:
  assumes "same_services R m m'" and "wf_map m" and "(n, v) \<in> set m" and "same_service R v v'"
  shows "same_services R m (AList.update n v' m')"
proof -
  have k: "keys_of m' = keys_of m" using same_services_keys [OF assms(1)] .
  with assms(2) have wf: "wf_map m'" by (simp add: wf_map_def)
  have "n \<in> set (keys_of m')" using assms(3) k by (metis fst_conv image_eqI set_map)
  then have u: "AList.update n v' m' = map (\<lambda>(k', u). (k', if k' = n then v' else u)) m'"
    using wf by (intro update_map)
  have "\<And>u. (n, u) \<in> set m \<Longrightarrow> u = v" using assms(2,3) by (metis option.inject wf_map_lookup)
  with assms(1,4) show ?thesis
    unfolding same_services_def u list_all2_map2
    by (elim list.rel_mono_strong) (auto dest: in_set_zipE)
qed

lemma replaceService_frame:
  assumes "\<And>x st y st'. f n x st = Some (y, st') \<Longrightarrow> R x y"
    and "replaceService f (n, v) (m', st) = Some (m'', st')"
    and "same_services R m m'" and "wf_map m" and "(n, v) \<in> set m"
  shows "same_services R m m''"
proof -
  from assms(2) obtain s lb servers where v: "v = Some s" "LoadBalancer s = Some lb"
    and e: "each_server (f n) (lb_Servers lb) st = Some (servers, st')"
    and m: "m'' = AList.update n (Some (s\<lparr>LoadBalancer := Some (lb\<lparr>lb_Servers := servers\<rparr>)\<rparr>)) m'"
    by (auto simp: replaceService_def bind_eq_Some_conv)
  have "list_all2 R (lb_Servers lb) servers" by (rule each_server_frame [OF assms(1) e])
  then have "same_service R v (Some (s\<lparr>LoadBalancer := Some (lb\<lparr>lb_Servers := servers\<rparr>)\<rparr>))"
    using v by (auto simp: same_service_def)
  from same_services_update [OF assms(3-5) this] m show ?thesis by simp
qed

lemma replaceHTTPServer_frame: "replaceHTTPServer conf ip n x w = Some (y, w') \<Longrightarrow> same_http x y"
  by (auto simp: replaceHTTPServer_def same_http_def bind_eq_Some_conv Let_def split: if_splits)

lemma replaceL4Server_frame: "replaceL4Server conf t n x st = Some (y, st') \<Longrightarrow> same_l4 x y"
  by (auto simp: replaceL4Server_def same_l4_def bind_eq_Some_conv Let_def split: prod.splits)

lemma replaceHTTP_frame:
  assumes "replaceHTTP conf ip s w = Some (s', w')" and "wf_section s"
  shows "same_section same_http s s'"
proof (cases s)
  case (Some p)
  from assms(1) Some obtain seed u m where
    l: "loop (replaceHTTPService conf ip (Routers p)) (permute seed (Services p)) (Services p, u) = Some (m, w')"
    and s': "s' = Some (p\<lparr>Services := m\<rparr>)"
    by (auto simp: replaceHTTP_def bind_eq_Some_conv split: prod.splits)
  have wf: "wf_map (Services p)" using assms(2) Some by (simp add: wf_proto_def)
  have "(\<lambda>(m, _). same_services same_http (Services p) m) (m, w')"
    by (rule loop_invariant [OF l])
       (auto simp: same_services_refl replaceHTTPService_def bind_eq_Some_conv
         intro: replaceService_frame [OF replaceHTTPServer_frame _ _ wf])
  with s' Some show ?thesis unfolding same_section_def by auto
qed (use assms in \<open>simp add: replaceHTTP_def same_section_def\<close>)

lemma replaceL4_frame:
  assumes "replaceL4 conf t s st = Some (s', st')" and "wf_section s"
  shows "same_section same_l4 s s'"
proof (cases s)
  case (Some p)
  from assms(1) Some obtain seed st0 m where
    l: "loop (replaceService (replaceL4Server conf t)) (permute seed (Services p)) (Services p, st0) = Some (m, st')"
    and s': "s' = Some (p\<lparr>Services := m\<rparr>)"
    by (auto simp: replaceL4_def bind_eq_Some_conv split: prod.splits)
  have wf: "wf_map (Services p)" using assms(2) Some by (simp add: wf_proto_def)
  have "(\<lambda>(m, _). same_services same_l4 (Services p) m) (m, st')"
    by (rule loop_invariant [OF l])
       (auto simp: same_services_refl intro: replaceService_frame [OF replaceL4Server_frame _ _ wf])
  with s' Some show ?thesis unfolding same_section_def by auto
qed (use assms in \<open>auto simp: replaceL4_def same_section_def\<close>)

lemma replaceIPs_frame:
  assumes "replaceIPs ip conf w = Some (conf', w')" and "wf_configuration conf"
  shows "same_section same_http (HTTP conf) (HTTP conf') \<and> same_section same_l4 (TCP conf) (TCP conf')
    \<and> same_section same_l4 (UDP conf) (UDP conf') \<and> conf_rest conf' = conf_rest conf"
  using assms
  by (auto simp: replaceIPs_def wf_configuration_def bind_eq_Some_conv Let_def
      dest: replaceHTTP_frame replaceL4_frame)

section \<open>Properties\<close>



definition preferred_address :: "inspect_response \<Rightarrow> string \<Rightarrow> string \<Rightarrow> string" where
  "preferred_address c svcName ip =
     (if label_of c (''kop.'' @ stripDocker svcName @ ''.bind.ip'') \<noteq> []
        then label_of c (''kop.'' @ stripDocker svcName @ ''.bind.ip'')
      else if label_of c ''kop.bind.ip'' \<noteq> [] then label_of c ''kop.bind.ip''
      else case network_address c of Some a \<Rightarrow> a | None \<Rightarrow> ip)"

lemma http_address_preferred: "http_address (Some c) n ip = preferred_address c n ip"
  by (simp add: http_address_def resolved_bind_def bind_label_def resolved_network_def preferred_address_def
      Let_def split: option.splits)

text \<open>
  C9: the URL of an HTTP server keeps its scheme and path; its host becomes, in this order of
  precedence, the label \<open>kop.<service>.bind.ip\<close>, the label \<open>kop.bind.ip\<close>, the container's address on
  the network of the label \<open>traefik.docker.network\<close>, the configured address; its port is the one
  resolved from the container.
\<close>

theorem http_url_rewritten:
  assumes "settled D w" and "resolves D conf ''http'' n (Some c)"
    and "plain_scheme scheme" and "plain_host h" and "list_all is_digit port" and "plain_path path"
    and "srv_URL server = scheme @ ''://'' @ host_port_string h port @ path"
    and "containerPort c ''http'' n port = Some p"
    and "a = with_port (preferred_address c n ip) p" and "plain encodeHost a" and "a \<noteq> []"
  shows "\<exists>w'. replaceHTTPServer conf ip n server w = Some (server\<lparr>srv_URL := scheme @ ''://'' @ a @ path\<rparr>, w')
    \<and> settled D w'"
proof -
  have ne: "scheme \<noteq> []" using assms(3) by (simp add: plain_scheme_def)
  then have "srv_URL server \<noteq> []" using assms(7) by simp
  moreover have "Parse (srv_URL server) = Some (plain_url scheme (host_port_string h port) path)"
    unfolding assms(7) by (rule Parse_plain [OF assms(3-6)])
  moreover have "resolved_port (Some c) ''http'' n (url_Port (plain_url scheme (host_port_string h port) path)) = Some p"
    using assms(8) url_Port_plain [OF assms(4,5)] by (simp add: resolved_port_def)
  moreover have "url_String (plain_url scheme (host_port_string h port) path\<lparr>u_Host := a\<rparr>) = scheme @ ''://'' @ a @ path"
    by (rule url_String_plain [OF ne assms(10,11,6)])
  ultimately have "published_http (Some c) ip n server = Some (server\<lparr>srv_URL := scheme @ ''://'' @ a @ path\<rparr>)"
    using assms(9) by (simp add: published_http_def http_address_preferred)
  with replaceHTTPServer_eq [OF assms(1,2), of ip server] show ?thesis by auto
qed

definition bound_labels :: labels where
  "bound_labels = [(''kop.bind.ip'', ''5.5.5.5''), (''traefik.docker.network'', ''net'')]"

theorem http_url_rewritten_witness:
  "\<exists>w'. replaceHTTPServer web_conf ''192.168.0.5'' ''web@docker'' (url_server ''https://172.17.0.2:80/app'')
      (sample_world (web_host bound_labels))
     = Some (url_server ''https://172.17.0.2:80/app''\<lparr>srv_URL := ''https'' @ ''://'' @ ''5.5.5.5:8080'' @ ''/app''\<rparr>, w')
    \<and> settled (web_host bound_labels) w'"
proof (rule http_url_rewritten)
  show "settled (web_host bound_labels) (sample_world (web_host bound_labels))"
    by (rule sample_settled) code_simp+
  show "resolves (web_host bound_labels) web_conf ''http'' ''web@docker'' (Some (sample_container ''c1'' (web_labels @ bound_labels)))"
    by code_simp
  show "plain_scheme ''https''" "plain_host ''172.17.0.2''" "list_all is_digit ''80''" "plain_path ''/app''" by code_simp+
  show "srv_URL (url_server ''https://172.17.0.2:80/app'') = ''https'' @ ''://'' @ host_port_string ''172.17.0.2'' ''80'' @ ''/app''"
    by code_simp
  show "containerPort (sample_container ''c1'' (web_labels @ bound_labels)) ''http'' ''web@docker'' ''80'' = Some ''8080''"
    by code_simp
  show "''5.5.5.5:8080'' = with_port (preferred_address (sample_container ''c1'' (web_labels @ bound_labels)) ''web@docker'' ''192.168.0.5'') ''8080''"
    by code_simp
  show "plain encodeHost ''5.5.5.5:8080''" by code_simp
qed simp

text \<open>
  A TCP or UDP server whose container is on no routable network gets the configured address,
  even if the container has a label \<open>kop.bind.ip\<close>: these labels have no effect on TCP and UDP.
\<close>

lemma l4_ignores_bind_labels:
  assumes "settled D w" and "resolves D conf svcType n (Some c)" and "network_address c = None"
    and "port = (if l4_Port server = [] then SplitHostPort_port (l4_Address server) else l4_Port server)"
    and "containerPort c svcType n port = Some p"
  shows "\<exists>w'. replaceL4Server conf svcType n server (ip, w)
      = Some (server\<lparr>l4_Port := p, l4_Address := with_port ip p\<rparr>, ip, w') \<and> settled D w'"
proof -
  have "published_l4 (Some c) svcType ip n server = Some (server\<lparr>l4_Port := p, l4_Address := with_port ip p\<rparr>)"
    using assms(4,5) by (auto simp: published_l4_def resolved_port_def)
  moreover have "resolved_network (Some c) ip = ip" using assms(3) by (simp add: resolved_network_def)
  ultimately show ?thesis using replaceL4Server_eq [OF assms(1,2), of ip server] by auto
qed

definition tcp_labels :: "string \<Rightarrow> labels" where
  "tcp_labels n = [(''traefik.tcp.services.'' @ n @ ''.loadbalancer.server.port'', ''80'')]"

definition tcp_conf :: "(string \<times> l4_server list) list \<Rightarrow> configuration" where
  "tcp_conf svcs = \<lparr>HTTP = Some (sample_section [] []),
     TCP = Some (sample_section (map (\<lambda>(n, s). (n @ ''@docker'', sample_service s)) svcs) []),
     UDP = Some (sample_section [] []), conf_rest = GInvalid\<rparr>"

definition leak_host :: "(string, inspect_response) gomap" where
  "leak_host = [(''c1'', sample_container ''c1'' (tcp_labels ''a'' @ [(''traefik.docker.network'', ''net'')])),
                (''c2'', sample_container ''c2'' (tcp_labels ''b''))]"


text \<open>
  C28: whatever the daemon answers, \<open>replaceIPs\<close> changes nothing but the URLs of the HTTP servers and
  the addresses and ports of the TCP and UDP servers: the names, the routers, the middlewares, the
  number of servers and every other field stay.
\<close>

theorem replaceIPs_changes_addresses_only:
  assumes "replaceIPs ip conf w = Some (conf', w')" and "wf_configuration conf"
  shows "same_section same_http (HTTP conf) (HTTP conf') \<and> same_section same_l4 (TCP conf) (TCP conf')
    \<and> same_section same_l4 (UDP conf) (UDP conf') \<and> conf_rest conf' = conf_rest conf"
  by (rule replaceIPs_frame [OF assms])

theorem replaceIPs_changes_addresses_only_witness:
  "\<exists>conf' w'. replaceIPs ''192.168.0.5'' web_conf (sample_world (web_host [])) = Some (conf', w')
    \<and> same_section same_http (HTTP web_conf) (HTTP conf') \<and> same_section same_l4 (TCP web_conf) (TCP conf')
    \<and> same_section same_l4 (UDP web_conf) (UDP conf') \<and> conf_rest conf' = conf_rest web_conf"
proof -
  have p: "published_configuration (c1_of []) ''192.168.0.5'' web_conf
     = Some (sample_configuration [url_server ''http://192.168.0.5:8080''])" by code_simp
  have "resolvable (web_host []) web_conf (c1_of []) ''192.168.0.5''" by code_simp
  from replaceIPs_eq [OF web_host_settled wf_web_conf this] p obtain conf' w' where
    r: "replaceIPs ''192.168.0.5'' web_conf (sample_world (web_host [])) = Some (conf', w')" by auto
  from replaceIPs_changes_addresses_only [OF r wf_web_conf] r show ?thesis by blast
qed

end
