(* ===== verification/Merge.thy ===== *)
theory Merge
  imports Replace
begin

text \<open>
  The store interface \<open>TraefikStore\<close> of \<^verbatim>\<open>store.go\<close> and the merge of load balancers with the
  servers other nodes have published (\<^verbatim>\<open>traefik_kop.go\<close>, \<open>mergeLoadBalancers\<close> and
  \<open>mergeGenericLoadBalancers\<close>).

  The generic function of the source reaches the services by reflection and is called with a pair
  of functions per protocol, \<open>getKey\<close> and \<open>makeServer\<close>; here they are arguments too, and their law is
  the locale \<open>server_kind\<close>.
\<close>

section \<open>The store interface\<close>

text \<open>
  The state \<open>'s\<close> is whatever the implementation keeps. A method returns an error as \<open>Some e\<close> or
  \<open>Inl e\<close>; a panic is \<open>None\<close>.
\<close>

record 's TraefikStore =
  ts_Store :: "configuration \<Rightarrow> 's \<Rightarrow> (string option \<times> 's) option"
  ts_Get :: "string \<Rightarrow> 's \<Rightarrow> (string + string) \<times> 's"
  ts_Gets :: "string \<Rightarrow> 's \<Rightarrow> (string + (string, string) gomap) \<times> 's"
  ts_Ping :: "'s \<Rightarrow> string option \<times> 's"
  ts_KeepConfAlive :: "'s \<Rightarrow> (string option \<times> 's) option"

section \<open>The merge\<close>

definition merge_wanted :: "labels \<Rightarrow> bool" where
  "merge_wanted l \<longleftrightarrow> ParseBool_val (get_str l ''kop.merge-lbs'') \<or> ParseBool_val (get_str l ''traefik.merge-lbs'')"

definition storeKey :: "string \<Rightarrow> string \<Rightarrow> string" where
  "storeKey svcType svcName =
     (if svcType = ''http''
        then ''traefik/http/services/'' @ stripDocker svcName @ ''/loadBalancer/servers/*/url''
      else if svcType = ''tcp'' \<or> svcType = ''udp''
        then ''traefik/'' @ svcType @ ''/services/'' @ stripDocker svcName @ ''/loadBalancer/servers/*/address''
      else [])"

text \<open>The set of keys: the stored values and our own non-empty ones.\<close>

definition keySet :: "('srv \<Rightarrow> string) \<Rightarrow> (string, string) gomap \<Rightarrow> 'srv list \<Rightarrow> string list" where
  "keySet getKey existing servers =
     remdups (map snd existing @ filter (\<lambda>k. k \<noteq> []) (map getKey servers))"

definition mergeService :: "configuration \<Rightarrow> string \<Rightarrow> 's TraefikStore \<Rightarrow> ('srv \<Rightarrow> string) \<Rightarrow> (string \<Rightarrow> 'srv)
    \<Rightarrow> string \<Rightarrow> 'srv service_map \<times> world \<times> 's \<Rightarrow> ('srv service_map \<times> world \<times> 's) option" where
  "mergeService conf svcType store getKey makeServer svcName = (\<lambda>(svcs, w, s). do {
     (r, w) \<leftarrow> serviceContainer conf svcType svcName w;
     case r of
       Inl err \<Rightarrow> Some (svcs, w, s)
     | Inr container \<Rightarrow> do {
         cfg \<leftarrow> Config container;
         if \<not> merge_wanted (Labels cfg) then Some (svcs, w, s)
         else let (got, s) = ts_Gets store (storeKey svcType svcName) s
              in case got of
                   Inl err \<Rightarrow> Some (svcs, w, s)
                 | Inr existingKeys \<Rightarrow>
                     if existingKeys = [] then Some (svcs, w, s)
                     else (case map_of svcs svcName of
                             Some (Some svc) \<Rightarrow>
                               (case LoadBalancer svc of
                                  None \<Rightarrow> Some (svcs, w, s)
                                | Some lb \<Rightarrow>
                                    let (seed, w) = next_seed w;
                                        newServers = map makeServer
                                          (permute seed (keySet getKey existingKeys (lb_Servers lb)))
                                    in Some (AList.update svcName
                                         (Some (svc\<lparr>LoadBalancer := Some (lb\<lparr>lb_Servers := newServers\<rparr>)\<rparr>)) svcs,
                                         w, s))
                           | _ \<Rightarrow> Some (svcs, w, s))
       }
   })"

text \<open>
  The test \<open>svcConf == nil\<close> of the source is on an interface that holds a typed pointer, so it is
  never true; a nil section makes the reflection panic.
\<close>

definition mergeGenericLoadBalancers :: "configuration \<Rightarrow> string \<Rightarrow> 'srv proto option \<Rightarrow> 's TraefikStore
    \<Rightarrow> ('srv \<Rightarrow> string) \<Rightarrow> (string \<Rightarrow> 'srv) \<Rightarrow> world \<times> 's \<Rightarrow> ('srv proto option \<times> world \<times> 's) option" where
  "mergeGenericLoadBalancers conf svcType svcConf store getKey makeServer = (\<lambda>(w, s). do {
     p \<leftarrow> svcConf;
     let (seed, w) = next_seed w;
     (svcs, w, s) \<leftarrow> loop (mergeService conf svcType store getKey makeServer)
                      (permute seed (keys_of (Services p))) (Services p, w, s);
     Some (Some (p\<lparr>Services := svcs\<rparr>), w, s)
   })"

definition make_http :: "string \<Rightarrow> http_server" where
  "make_http url = \<lparr>srv_URL = url, srv_Scheme = [], srv_Port = [], srv_rest = None\<rparr>"

definition make_l4 :: "string \<Rightarrow> l4_server" where
  "make_l4 addr = \<lparr>l4_Address = addr, l4_Port = [], l4_rest = None\<rparr>"

definition mergeLoadBalancers :: "configuration \<Rightarrow> 's TraefikStore \<Rightarrow> world \<times> 's
    \<Rightarrow> (configuration \<times> world \<times> 's) option" where
  "mergeLoadBalancers conf store st = do {
     (http, st) \<leftarrow> mergeGenericLoadBalancers conf ''http'' (HTTP conf) store srv_URL make_http st;
     let conf = conf\<lparr>HTTP := http\<rparr>;
     (tcp, st) \<leftarrow> mergeGenericLoadBalancers conf ''tcp'' (TCP conf) store l4_Address make_l4 st;
     let conf = conf\<lparr>TCP := tcp\<rparr>;
     (udp, st) \<leftarrow> mergeGenericLoadBalancers conf ''udp'' (UDP conf) store l4_Address make_l4 st;
     Some (conf\<lparr>UDP := udp\<rparr>, st)
   }"

section \<open>What a service becomes\<close>

text \<open>The stored servers that are merged into the service \<open>n\<close>, when the store answers with \<open>E\<close>.\<close>

definition to_merge :: "(string \<Rightarrow> (string, string) gomap) \<Rightarrow> inspect_response option \<Rightarrow> string \<Rightarrow> string
    \<Rightarrow> (string, string) gomap" where
  "to_merge E ow svcType n =
     (case ow of
        None \<Rightarrow> []
      | Some c \<Rightarrow> if merge_wanted (container_labels c) then E (storeKey svcType n) else [])"

text \<open>
  With nothing to merge, without a service or a load balancer, the entry stays. Otherwise the new
  servers are made from the stored and the own keys, each once.
\<close>

definition merged :: "('srv \<Rightarrow> string) \<Rightarrow> (string \<Rightarrow> 'srv) \<Rightarrow> (string, string) gomap
    \<Rightarrow> 'srv service option \<Rightarrow> 'srv service option \<Rightarrow> bool" where
  "merged getKey makeServer ex v v' =
     (case v of
        None \<Rightarrow> v' = v
      | Some svc \<Rightarrow>
          (case LoadBalancer svc of
             None \<Rightarrow> v' = v
           | Some lb \<Rightarrow>
               if ex = [] then v' = v
               else (\<exists>ks. v' = Some (svc\<lparr>LoadBalancer := Some (lb\<lparr>lb_Servers := map makeServer ks\<rparr>)\<rparr>)
                  \<and> distinct ks \<and> set ks = snd ` set ex \<union> (getKey ` set (lb_Servers lb) - {[]}))))"

text \<open>\<open>J\<close> holds while the store answers \<open>Gets\<close> with \<open>E\<close>.\<close>

definition answering :: "'s TraefikStore \<Rightarrow> (string \<Rightarrow> (string, string) gomap) \<Rightarrow> ('s \<Rightarrow> bool) \<Rightarrow> bool" where
  "answering store E J \<longleftrightarrow> (\<forall>svcType n s. J s \<longrightarrow>
     (\<exists>s'. ts_Gets store (storeKey svcType n) s = (Inr (E (storeKey svcType n)), s') \<and> J s'))"

lemma merged_keySet:
  assumes "ex \<noteq> []" and "LoadBalancer svc = Some lb"
  shows "merged getKey makeServer ex (Some svc)
    (Some (svc\<lparr>LoadBalancer := Some (lb\<lparr>lb_Servers := map makeServer (permute seed (keySet getKey ex (lb_Servers lb)))\<rparr>)\<rparr>))"
proof -
  let ?ks = "permute seed (keySet getKey ex (lb_Servers lb))"
  have "set ?ks = snd ` set ex \<union> (getKey ` set (lb_Servers lb) - {[]})" "distinct ?ks" by (auto simp: keySet_def)
  with assms show ?thesis unfolding merged_def by (simp only: option.case if_False) blast
qed

lemma mergeService_step:
  fixes getKey :: "'srv \<Rightarrow> string"
  assumes "settled D w" and "J s" and "answering store E J" and "resolves D conf svcType n ow"
    and "map_of svcs n = Some v"
  shows "\<exists>w' s' v'. settled D w' \<and> J s' \<and> merged getKey makeServer (to_merge E ow svcType n) v v'
    \<and> mergeService conf svcType store getKey makeServer n (svcs, w, s) = Some (AList.update n v' svcs, w', s')"
proof -
  obtain r w1 where r: "serviceContainer conf svcType n w = Some (r, w1)" "settled D w1" "agrees ow r"
    using serviceContainer_resolves [OF assms(1,4)] by blast
  note same = update_same [OF assms(5)]
  obtain s1 where s1: "ts_Gets store (storeKey svcType n) s = (Inr (E (storeKey svcType n)), s1)" "J s1"
    using assms(2,3) unfolding answering_def by blast
  show ?thesis
  proof (cases ow)
    case None
    with r same assms(2) show ?thesis
      by (intro exI [of _ w1] exI [of _ s] exI [of _ v])
         (auto simp: mergeService_def agrees_def merged_def to_merge_def split: option.splits)
  next
    case (Some c)
    have cfg: "Config c = Some \<lparr>Labels = container_labels c\<rparr>"
      using resolves_normal [OF assms(1)] assms(4) Some normal_Config by blast
    have rc: "r = Inr c" using r(3) Some by (simp add: agrees_def)
    show ?thesis
    proof (cases "merge_wanted (container_labels c)")
      case False
      with r rc cfg Some same assms(2) show ?thesis
        by (intro exI [of _ w1] exI [of _ s] exI [of _ v])
           (auto simp: mergeService_def merged_def to_merge_def split: option.splits)
    next
      case True
      show ?thesis
      proof (cases "E (storeKey svcType n) \<noteq> [] \<and> (\<exists>svc lb. v = Some svc \<and> LoadBalancer svc = Some lb)")
        case False
        with r rc cfg Some same s1 True assms(5) show ?thesis
          by (intro exI [of _ w1] exI [of _ s1] exI [of _ v])
             (auto simp: mergeService_def merged_def to_merge_def split: option.splits)
      next
        case m: True
        then obtain svc lb where v: "v = Some svc" "LoadBalancer svc = Some lb" by blast
        obtain seed w2 where w2: "next_seed w1 = (seed, w2)" by fastforce
        let ?v = "Some (svc\<lparr>LoadBalancer := Some (lb\<lparr>lb_Servers := map makeServer
            (permute seed (keySet getKey (E (storeKey svcType n)) (lb_Servers lb)))\<rparr>)\<rparr>)"
        have "merged getKey makeServer (E (storeKey svcType n)) v ?v"
          unfolding v(1) using m v(2) by (intro merged_keySet) simp_all
        with r rc cfg Some s1 True assms(5) m v w2 settled_next_seed [OF r(2) w2] show ?thesis
          by (intro exI [of _ w2] exI [of _ s1] exI [of _ ?v])
             (simp add: mergeService_def to_merge_def Let_def)
      qed
    qed
  qed
qed

definition merged_section :: "('srv \<Rightarrow> string) \<Rightarrow> (string \<Rightarrow> 'srv) \<Rightarrow> (string \<Rightarrow> (string, string) gomap)
    \<Rightarrow> 'srv proto option \<Rightarrow> 'srv proto option \<Rightarrow> bool" where
  "merged_section getKey makeServer ex s s' \<longleftrightarrow>
     (\<exists>p m. s = Some p \<and> s' = Some (p\<lparr>Services := m\<rparr>)
        \<and> entrywise (\<lambda>n. merged getKey makeServer (ex n)) (Services p) m)"

lemma mergeGeneric_merged:
  fixes p :: "'srv proto"
  assumes "settled D w" and "J s" and "answering store E J" and "wf_proto p"
    and "\<And>n. n \<in> set (keys_of (Services p)) \<Longrightarrow> resolves D conf svcType n (own n)"
  shows "\<exists>s' w' st'. settled D w' \<and> J st'
    \<and> mergeGenericLoadBalancers conf svcType (Some p) store getKey makeServer (w, s) = Some (s', w', st')
    \<and> merged_section getKey makeServer (\<lambda>n. to_merge E (own n) svcType n) (Some p) s'"
proof -
  obtain seed u where u: "next_seed w = (seed, u)" by fastforce
  have "\<exists>st m. (\<lambda>(w, s). settled D w \<and> J s) st
    \<and> loop (mergeService conf svcType store getKey makeServer) (permute seed (keys_of (Services p)))
        (Services p, u, s) = Some (m, st)
    \<and> entrywise (\<lambda>n. merged getKey makeServer (to_merge E (own n) svcType n)) (Services p) m"
  proof (rule loop_entrywise)
    show "(\<lambda>(w, s). settled D w \<and> J s) (u, s)" using settled_next_seed [OF assms(1) u] assms(2) by simp
    show "wf_map (Services p)" using assms(4) by (simp add: wf_proto_def)
    fix k and n :: "'srv service_map" and v st
    assume k: "k \<in> set (keys_of (Services p))" and st: "(\<lambda>(w, s). settled D w \<and> J s) st"
      and v: "map_of n k = Some v"
    from st obtain w' s' where st': "st = (w', s')" "settled D w'" "J s'" by auto
    from mergeService_step [OF st'(2,3) assms(3) assms(5) [OF k] v, of getKey makeServer] st'(1)
    show "\<exists>u' v'. (\<lambda>(w, s). settled D w \<and> J s) u' \<and> merged getKey makeServer (to_merge E (own k) svcType k) v v'
        \<and> mergeService conf svcType store getKey makeServer k (n, st) = Some (AList.update k v' n, u')"
      by fastforce
  qed
  then show ?thesis using u by (fastforce simp: mergeGenericLoadBalancers_def merged_section_def)
qed

definition full :: "configuration \<Rightarrow> bool" where
  "full conf \<longleftrightarrow> HTTP conf \<noteq> None \<and> TCP conf \<noteq> None \<and> UDP conf \<noteq> None"

definition merged_configuration :: "(string \<Rightarrow> (string, string) gomap)
    \<Rightarrow> (string \<Rightarrow> string \<Rightarrow> inspect_response option) \<Rightarrow> configuration \<Rightarrow> configuration \<Rightarrow> bool" where
  "merged_configuration E own conf conf' \<longleftrightarrow>
     merged_section srv_URL make_http (\<lambda>n. to_merge E (own ''http'' n) ''http'' n) (HTTP conf) (HTTP conf')
     \<and> merged_section l4_Address make_l4 (\<lambda>n. to_merge E (own ''tcp'' n) ''tcp'' n) (TCP conf) (TCP conf')
     \<and> merged_section l4_Address make_l4 (\<lambda>n. to_merge E (own ''udp'' n) ''udp'' n) (UDP conf) (UDP conf')
     \<and> conf_rest conf' = conf_rest conf"

lemma mergeLoadBalancers_merged:
  assumes "settled D w" and "J s" and "answering store E J" and "wf_configuration conf" and "full conf"
    and "\<And>n. n \<in> set (keys_of (services (HTTP conf))) \<Longrightarrow> resolves D conf ''http'' n (own ''http'' n)"
    and "\<And>n. n \<in> set (keys_of (services (TCP conf))) \<Longrightarrow> resolves D conf ''tcp'' n (own ''tcp'' n)"
    and "\<And>n. n \<in> set (keys_of (services (UDP conf))) \<Longrightarrow> resolves D conf ''udp'' n (own ''udp'' n)"
  shows "\<exists>conf' w' s'. settled D w' \<and> J s' \<and> mergeLoadBalancers conf store (w, s) = Some (conf', w', s')
    \<and> merged_configuration E own conf conf'"
proof -
  obtain h t u where c: "HTTP conf = Some h" "TCP conf = Some t" "UDP conf = Some u"
    using assms(5) by (auto simp: full_def)
  then have wf: "wf_proto h" "wf_proto t" "wf_proto u" using assms(4) by (simp_all add: wf_configuration_def)
  have rh: "\<And>n. n \<in> set (keys_of (Services h)) \<Longrightarrow> resolves D conf ''http'' n (own ''http'' n)"
    using assms(6) c by simp
  obtain h' w1 s1 where 1: "settled D w1" "J s1"
    "mergeGenericLoadBalancers conf ''http'' (Some h) store srv_URL make_http (w, s) = Some (h', w1, s1)"
    "merged_section srv_URL make_http (\<lambda>n. to_merge E (own ''http'' n) ''http'' n) (Some h) h'"
    using mergeGeneric_merged [OF assms(1-3) wf(1) rh, of srv_URL make_http] by blast
  let ?c1 = "conf\<lparr>HTTP := h'\<rparr>"
  have rt: "\<And>n. n \<in> set (keys_of (Services t)) \<Longrightarrow> resolves D ?c1 ''tcp'' n (own ''tcp'' n)"
    using assms(7) c by (simp add: resolves_cong [of _ ?c1 conf])
  obtain t' w2 s2 where 2: "settled D w2" "J s2"
    "mergeGenericLoadBalancers ?c1 ''tcp'' (Some t) store l4_Address make_l4 (w1, s1) = Some (t', w2, s2)"
    "merged_section l4_Address make_l4 (\<lambda>n. to_merge E (own ''tcp'' n) ''tcp'' n) (Some t) t'"
    using mergeGeneric_merged [OF 1(1,2) assms(3) wf(2) rt, of l4_Address make_l4] by blast
  let ?c2 = "?c1\<lparr>TCP := t'\<rparr>"
  have ru: "\<And>n. n \<in> set (keys_of (Services u)) \<Longrightarrow> resolves D ?c2 ''udp'' n (own ''udp'' n)"
    using assms(8) c by (simp add: resolves_cong [of _ ?c2 conf])
  obtain u' w3 s3 where 3: "settled D w3" "J s3"
    "mergeGenericLoadBalancers ?c2 ''udp'' (Some u) store l4_Address make_l4 (w2, s2) = Some (u', w3, s3)"
    "merged_section l4_Address make_l4 (\<lambda>n. to_merge E (own ''udp'' n) ''udp'' n) (Some u) u'"
    using mergeGeneric_merged [OF 2(1,2) assms(3) wf(3) ru, of l4_Address make_l4] by blast
  with 1 2 c show ?thesis by (auto simp: mergeLoadBalancers_def merged_configuration_def Let_def)
qed

section \<open>The two kinds of servers\<close>

text \<open>
  What the merge relies on of \<open>getKey\<close> and \<open>makeServer\<close>: a server made from a key has that key. Then the
  keys of a merged load balancer are the stored ones together with its own non-empty ones, each once.
\<close>

locale server_kind =
  fixes getKey :: "'srv \<Rightarrow> string" and makeServer :: "string \<Rightarrow> 'srv"
  assumes getKey_makeServer: "getKey (makeServer k) = k"
begin

lemma merged_union:
  assumes "merged getKey makeServer ex (Some svc) v'" and "LoadBalancer svc = Some lb" and "ex \<noteq> []"
  shows "\<exists>servers. v' = Some (svc\<lparr>LoadBalancer := Some (lb\<lparr>lb_Servers := servers\<rparr>)\<rparr>)
    \<and> distinct (map getKey servers)
    \<and> set (map getKey servers) = snd ` set ex \<union> (getKey ` set (lb_Servers lb) - {[]})"
proof -
  from assms obtain ks where
    v: "v' = Some (svc\<lparr>LoadBalancer := Some (lb\<lparr>lb_Servers := map makeServer ks\<rparr>)\<rparr>)"
    and ks: "distinct ks" "set ks = snd ` set ex \<union> (getKey ` set (lb_Servers lb) - {[]})"
    by (auto simp: merged_def)
  have "map getKey (map makeServer ks) = ks" by (simp add: comp_def getKey_makeServer)
  with v ks show ?thesis by (intro exI [of _ "map makeServer ks"]) simp
qed

lemma merged_idle: "merged getKey makeServer [] v v' \<Longrightarrow> v' = v"
  by (auto simp: merged_def split: option.splits)

end

interpretation http_kind: server_kind srv_URL make_http
  by unfold_locales (simp add: make_http_def)

interpretation l4_kind: server_kind l4_Address make_l4
  by unfold_locales (simp add: make_l4_def)

lemma mergeGeneric_section:
  "mergeGenericLoadBalancers c t sec store getKey makeServer u = Some x \<Longrightarrow> sec \<noteq> None"
  by (cases u) (auto simp: mergeGenericLoadBalancers_def bind_eq_Some_conv)

section \<open>Properties\<close>

text \<open>
  C6: with a store that answers, and containers that determine the owner of every service, the merge
  rewrites exactly the services whose container asks for it and for which servers are stored: their
  servers become the stored ones and the own ones, each once. Everything else stays.
\<close>

theorem mergeLoadBalancers_exact:
  assumes "settled D w" and "J s" and "answering store E J" and "wf_configuration conf" and "full conf"
    and "\<forall>n \<in> set (keys_of (services (HTTP conf))). resolves D conf ''http'' n (own ''http'' n)"
    and "\<forall>n \<in> set (keys_of (services (TCP conf))). resolves D conf ''tcp'' n (own ''tcp'' n)"
    and "\<forall>n \<in> set (keys_of (services (UDP conf))). resolves D conf ''udp'' n (own ''udp'' n)"
  shows "\<exists>conf' w' s'. mergeLoadBalancers conf store (w, s) = Some (conf', w', s') \<and> settled D w' \<and> J s'
    \<and> merged_configuration E own conf conf'"
  using mergeLoadBalancers_merged [where own = own, OF assms(1-5)] assms(6-8) by blast

text \<open>A store that holds one server of another node.\<close>

definition other_node :: "unit TraefikStore" where
  "other_node = \<lparr>ts_Store = (\<lambda>_ s. Some (None, s)), ts_Get = (\<lambda>_ s. (Inr ''http://10.0.0.9:80'', s)),
     ts_Gets = (\<lambda>_ s. (Inr [(''traefik/http/services/web/loadBalancer/servers/0/url'', ''http://10.0.0.9:80'')], s)),
     ts_Ping = (\<lambda>s. (None, s)), ts_KeepConfAlive = (\<lambda>s. Some (None, s))\<rparr>"

definition merge_labels :: labels where
  "merge_labels = [(''kop.merge-lbs'', ''true'')]"

theorem mergeLoadBalancers_exact_witness:
  "\<exists>conf' w' s'. mergeLoadBalancers web_conf other_node (sample_world (web_host merge_labels), ()) = Some (conf', w', s')
    \<and> settled (web_host merge_labels) w' \<and> True
    \<and> merged_configuration (\<lambda>_. [(''traefik/http/services/web/loadBalancer/servers/0/url'', ''http://10.0.0.9:80'')])
        (c1_of merge_labels) web_conf conf'"
proof (rule mergeLoadBalancers_exact [where J = "\<lambda>_. True"])
  show "settled (web_host merge_labels) (sample_world (web_host merge_labels))" by (rule sample_settled) code_simp+
  show "answering other_node (\<lambda>_. [(''traefik/http/services/web/loadBalancer/servers/0/url'', ''http://10.0.0.9:80'')]) (\<lambda>_. True)"
    by (simp add: answering_def other_node_def)
  show "full web_conf" by code_simp
  show "\<forall>n \<in> set (keys_of (services (HTTP web_conf))). resolves (web_host merge_labels) web_conf ''http'' n (c1_of merge_labels ''http'' n)"
    "\<forall>n \<in> set (keys_of (services (TCP web_conf))). resolves (web_host merge_labels) web_conf ''tcp'' n (c1_of merge_labels ''tcp'' n)"
    "\<forall>n \<in> set (keys_of (services (UDP web_conf))). resolves (web_host merge_labels) web_conf ''udp'' n (c1_of merge_labels ''udp'' n)"
    by code_simp+
qed (simp_all add: wf_web_conf)

text \<open>
  The URLs of a merged HTTP service are the stored URLs together with its own non-empty ones, each
  exactly once; the rest of the service is unchanged. Without stored servers, without the label or
  without a container the service is unchanged.
\<close>

lemma merge_http_union:
  assumes "settled D w" and "J s" and "answering store E J" and "resolves D conf ''http'' n ow"
    and "map_of svcs n = Some (Some svc)" and "LoadBalancer svc = Some lb"
  shows "\<exists>w' s' svc'. mergeService conf ''http'' store srv_URL make_http n (svcs, w, s)
      = Some (AList.update n svc' svcs, w', s')
    \<and> (if to_merge E ow ''http'' n = [] then svc' = Some svc
       else \<exists>servers. svc' = Some (svc\<lparr>LoadBalancer := Some (lb\<lparr>lb_Servers := servers\<rparr>)\<rparr>)
         \<and> distinct (map srv_URL servers)
         \<and> set (map srv_URL servers) = snd ` set (to_merge E ow ''http'' n) \<union> (srv_URL ` set (lb_Servers lb) - {[]}))"
proof -
  obtain w' s' v' where m: "merged srv_URL make_http (to_merge E ow ''http'' n) (Some svc) v'"
    and eq: "mergeService conf ''http'' store srv_URL make_http n (svcs, w, s) = Some (AList.update n v' svcs, w', s')"
    using mergeService_step [OF assms(1-5), of srv_URL make_http] by blast
  show ?thesis
  proof (cases "to_merge E ow ''http'' n = []")
    case True
    with m have "v' = Some svc" using http_kind.merged_idle by simp
    with eq True show ?thesis by auto
  next
    case False
    from http_kind.merged_union [OF m assms(6) False] eq False show ?thesis by auto
  qed
qed



end
