(* ===== verification/Redis.thy ===== *)
theory Redis
  imports Util
begin

text \<open>
  The Redis client that the store uses, a third-party package and a server: a record of the commands
  the program sends, as functions on the state of the server. What the store relies on are the
  laws of the locale \<open>redis\<close>, the documented effect of each command on the key space, for a server
  that is reachable and that nobody else writes to while a command sequence runs.

  \<open>mem\<close> is an in-memory server with these commands; it satisfies the laws.
\<close>

section \<open>The commands\<close>

record 'r redis_client =
  rc_Ping :: "'r \<Rightarrow> string option \<times> 'r"
  rc_Get :: "string \<Rightarrow> 'r \<Rightarrow> (string + string option) \<times> 'r"
  rc_Keys :: "string \<Rightarrow> 'r \<Rightarrow> (string + string list) \<times> 'r"
  rc_Set :: "string \<Rightarrow> string \<Rightarrow> int \<Rightarrow> 'r \<Rightarrow> string option \<times> 'r"
  rc_Exists :: "string \<Rightarrow> 'r \<Rightarrow> (string + nat) \<times> 'r"
  rc_Rename :: "string \<Rightarrow> string \<Rightarrow> 'r \<Rightarrow> string option \<times> 'r"
  rc_Unlink :: "string list \<Rightarrow> 'r \<Rightarrow> string option \<times> 'r"
  rc_SMembers :: "string \<Rightarrow> 'r \<Rightarrow> (string + string list) \<times> 'r"
  rc_SAdd :: "string \<Rightarrow> string list \<Rightarrow> 'r \<Rightarrow> string option \<times> 'r"
  rc_SDiff :: "string \<Rightarrow> string \<Rightarrow> 'r \<Rightarrow> (string + string list) \<times> 'r"
  rc_PExpireAll :: "(string \<times> int) list \<Rightarrow> 'r \<Rightarrow> (string + bool list) \<times> 'r"

section \<open>The key space\<close>

datatype rval = RString string | RSet "string set"

text \<open>A key is live with a value and the time at which it expires, if it does.\<close>

type_synonym keyspace = "string \<Rightarrow> (rval \<times> int option) option"

definition str_at :: "keyspace \<Rightarrow> string \<Rightarrow> string option" where
  "str_at ks k = (case ks k of Some (RString v, _) \<Rightarrow> Some v | _ \<Rightarrow> None)"

definition members :: "keyspace \<Rightarrow> string \<Rightarrow> string set" where
  "members ks k = (case ks k of Some (RSet S, _) \<Rightarrow> S | _ \<Rightarrow> {})"

definition set_typed :: "keyspace \<Rightarrow> string \<Rightarrow> bool" where
  "set_typed ks k = (case ks k of None \<Rightarrow> True | Some (RSet _, _) \<Rightarrow> True | _ \<Rightarrow> False)"

definition expiry :: "int \<Rightarrow> int \<Rightarrow> int option" where
  "expiry now d = (if d > 0 then Some (now + d) else None)"

definition add_members :: "string \<Rightarrow> string list \<Rightarrow> keyspace \<Rightarrow> keyspace" where
  "add_members k xs ks = ks(k \<mapsto> (RSet (members ks k \<union> set xs), (case ks k of None \<Rightarrow> None | Some (_, e) \<Rightarrow> e)))"

definition drop_keys :: "string set \<Rightarrow> keyspace \<Rightarrow> keyspace" where
  "drop_keys K ks = (\<lambda>k. if k \<in> K then None else ks k)"

definition rename_key :: "string \<Rightarrow> string \<Rightarrow> keyspace \<Rightarrow> keyspace" where
  "rename_key a b ks = (ks(a := None))(b := ks a)"

definition renew_keys :: "int \<Rightarrow> (string \<times> int) list \<Rightarrow> keyspace \<Rightarrow> keyspace" where
  "renew_keys now cmds ks =
     (\<lambda>k. case map_of (rev cmds) k of
            None \<Rightarrow> ks k
          | Some d \<Rightarrow> map_option (\<lambda>(v, _). (v, expiry now d)) (ks k))"

text \<open>A text without the characters that are special in a glob pattern.\<close>

definition glob_free :: "string \<Rightarrow> bool" where
  "glob_free s = list_all (\<lambda>c. c \<notin> set ''*?[]^'' \<and> c \<noteq> CHR 92) s"

section \<open>The laws\<close>

definition no_such_key :: string where
  "no_such_key = ''ERR no such key''"

locale redis =
  fixes cl :: "'r redis_client" and db :: "'r \<Rightarrow> keyspace" and up :: "'r \<Rightarrow> bool" and clock :: "'r \<Rightarrow> int"
  assumes Get_law: "up r \<Longrightarrow> set_typed (db r) k \<Longrightarrow> db r k = None \<Longrightarrow> \<exists>r'. rc_Get cl k r = (Inr None, r')
      \<and> up r' \<and> clock r' = clock r \<and> db r' = db r"
    and Get_string_law: "up r \<Longrightarrow> str_at (db r) k = Some v \<Longrightarrow> \<exists>r'. rc_Get cl k r = (Inr (Some v), r')
      \<and> up r' \<and> clock r' = clock r \<and> db r' = db r"
    and Keys_law: "up r \<Longrightarrow> glob_free p \<Longrightarrow> glob_free q \<Longrightarrow> \<exists>ks r'. rc_Keys cl (p @ ''*'' @ q) r = (Inr ks, r')
      \<and> up r' \<and> clock r' = clock r \<and> db r' = db r
      \<and> distinct ks \<and> set ks = {k. db r k \<noteq> None \<and> (\<exists>m. k = p @ m @ q)}"
    and Set_law: "up r \<Longrightarrow> 0 \<le> d \<Longrightarrow> \<exists>r'. rc_Set cl k v d r = (None, r')
      \<and> up r' \<and> clock r' = clock r \<and> db r' = (db r)(k \<mapsto> (RString v, expiry (clock r) d))"
    and Exists_law: "up r \<Longrightarrow> \<exists>r'. rc_Exists cl k r = (Inr (if db r k = None then 0 else 1), r')
      \<and> up r' \<and> clock r' = clock r \<and> db r' = db r"
    and Rename_law: "up r \<Longrightarrow> db r a \<noteq> None \<Longrightarrow> a \<noteq> b \<Longrightarrow> \<exists>r'. rc_Rename cl a b r = (None, r')
      \<and> up r' \<and> clock r' = clock r \<and> db r' = rename_key a b (db r)"
    and Rename_missing_law: "up r \<Longrightarrow> db r a = None \<Longrightarrow> \<exists>r'. rc_Rename cl a b r = (Some no_such_key, r')
      \<and> up r' \<and> clock r' = clock r \<and> db r' = db r"
    and Unlink_law: "up r \<Longrightarrow> xs \<noteq> [] \<Longrightarrow> \<exists>r'. rc_Unlink cl xs r = (None, r')
      \<and> up r' \<and> clock r' = clock r \<and> db r' = drop_keys (set xs) (db r)"
    and Unlink_arity_law: "up r \<Longrightarrow> \<exists>e r'. rc_Unlink cl [] r = (Some e, r')
      \<and> up r' \<and> clock r' = clock r \<and> db r' = db r"
    and SMembers_law: "up r \<Longrightarrow> set_typed (db r) k \<Longrightarrow> \<exists>xs r'. rc_SMembers cl k r = (Inr xs, r')
      \<and> up r' \<and> clock r' = clock r \<and> db r' = db r \<and> distinct xs \<and> set xs = members (db r) k"
    and SAdd_law: "up r \<Longrightarrow> set_typed (db r) k \<Longrightarrow> xs \<noteq> [] \<Longrightarrow> \<exists>r'. rc_SAdd cl k xs r = (None, r')
      \<and> up r' \<and> clock r' = clock r \<and> db r' = add_members k xs (db r)"
    and SDiff_law: "up r \<Longrightarrow> set_typed (db r) a \<Longrightarrow> set_typed (db r) b \<Longrightarrow> \<exists>xs r'. rc_SDiff cl a b r = (Inr xs, r')
      \<and> up r' \<and> clock r' = clock r \<and> db r' = db r \<and> distinct xs \<and> set xs = members (db r) a - members (db r) b"
    and PExpire_law: "up r \<Longrightarrow> list_all (\<lambda>(_, d). d > 0) cmds \<Longrightarrow>
      \<exists>r'. rc_PExpireAll cl cmds r = (Inr (map (\<lambda>(k, _). db r k \<noteq> None) cmds), r')
      \<and> up r' \<and> clock r' = clock r \<and> db r' = renew_keys (clock r) cmds (db r)"

section \<open>An in-memory server\<close>

datatype mem_val = MString string | MSet "string list"

record mem =
  mem_db :: "(string, mem_val \<times> int option) gomap"
  mem_clock :: int

fun rval_of :: "mem_val \<Rightarrow> rval" where
  "rval_of (MString v) = RString v"
| "rval_of (MSet xs) = RSet (set xs)"

definition mem_keys :: "mem \<Rightarrow> keyspace" where
  "mem_keys r k = map_option (\<lambda>(v, e). (rval_of v, e)) (map_of (mem_db r) k)"

fun glob :: "string \<Rightarrow> string \<Rightarrow> bool" where
  "glob [] s = (s = [])"
| "glob (c # p) [] = (c = CHR ''*'' \<and> glob p [])"
| "glob (c # p) (x # s) =
     (if c = CHR ''*'' then glob p (x # s) \<or> glob (c # p) s
      else (c = CHR ''?'' \<or> c = x) \<and> glob p s)"

definition mem_set_of :: "mem \<Rightarrow> string \<Rightarrow> string + string list" where
  "mem_set_of r k = (case map_of (mem_db r) k of
     None \<Rightarrow> Inr [] | Some (MSet xs, _) \<Rightarrow> Inr (remdups xs) | Some _ \<Rightarrow> Inl ''WRONGTYPE'')"

definition mem_put :: "string \<Rightarrow> mem_val \<times> int option \<Rightarrow> mem \<Rightarrow> mem" where
  "mem_put k v r = r\<lparr>mem_db := AList.update k v (mem_db r)\<rparr>"

definition mem_drop :: "string list \<Rightarrow> mem \<Rightarrow> mem" where
  "mem_drop xs r = r\<lparr>mem_db := filter (\<lambda>(k, _). k \<notin> set xs) (mem_db r)\<rparr>"

definition mem_SAdd :: "string \<Rightarrow> string list \<Rightarrow> mem \<Rightarrow> string option \<times> mem" where
  "mem_SAdd k xs r =
     (if xs = [] then (Some ''ERR wrong number of arguments'', r)
      else case map_of (mem_db r) k of
             None \<Rightarrow> (None, mem_put k (MSet xs, None) r)
           | Some (MSet ys, e) \<Rightarrow> (None, mem_put k (MSet (ys @ xs), e) r)
           | Some _ \<Rightarrow> (Some ''WRONGTYPE'', r))"

definition mem_SDiff :: "string \<Rightarrow> string \<Rightarrow> mem \<Rightarrow> (string + string list) \<times> mem" where
  "mem_SDiff a b r =
     ((case (mem_set_of r a, mem_set_of r b) of
         (Inr xs, Inr ys) \<Rightarrow> Inr (filter (\<lambda>x. x \<notin> set ys) xs)
       | _ \<Rightarrow> Inl ''WRONGTYPE''), r)"

definition mem_Rename :: "string \<Rightarrow> string \<Rightarrow> mem \<Rightarrow> string option \<times> mem" where
  "mem_Rename a b r =
     (case map_of (mem_db r) a of
        None \<Rightarrow> (Some no_such_key, r)
      | Some v \<Rightarrow> (None, mem_put b v (mem_drop [a] r)))"

definition mem_Get :: "string \<Rightarrow> mem \<Rightarrow> (string + string option) \<times> mem" where
  "mem_Get k r = ((case map_of (mem_db r) k of
     None \<Rightarrow> Inr None | Some (MString v, _) \<Rightarrow> Inr (Some v) | Some _ \<Rightarrow> Inl ''WRONGTYPE''), r)"

definition mem_PExpireAll :: "(string \<times> int) list \<Rightarrow> mem \<Rightarrow> (string + bool list) \<times> mem" where
  "mem_PExpireAll cmds r =
     (Inr (map (\<lambda>(k, _). k \<in> set (keys_of (mem_db r))) cmds),
      r\<lparr>mem_db := map (\<lambda>(k, v, e). (k, v, case map_of (rev cmds) k of
          None \<Rightarrow> e | Some d \<Rightarrow> expiry (mem_clock r) d)) (mem_db r)\<rparr>)"

definition mem_client :: "mem redis_client" where
  "mem_client = \<lparr>
     rc_Ping = (\<lambda>r. (None, r)),
     rc_Get = mem_Get,
     rc_Keys = (\<lambda>pat r. (Inr (filter (glob pat) (remdups (keys_of (mem_db r)))), r)),
     rc_Set = (\<lambda>k v d r. (None, mem_put k (MString v, expiry (mem_clock r) d) r)),
     rc_Exists = (\<lambda>k r. (Inr (if k \<in> set (keys_of (mem_db r)) then 1 else 0), r)),
     rc_Rename = mem_Rename,
     rc_Unlink = (\<lambda>xs r. if xs = [] then (Some ''ERR wrong number of arguments'', r) else (None, mem_drop xs r)),
     rc_SMembers = (\<lambda>k r. (mem_set_of r k, r)),
     rc_SAdd = mem_SAdd,
     rc_SDiff = mem_SDiff,
     rc_PExpireAll = mem_PExpireAll\<rparr>"

lemma glob_plain: "glob_free p \<Longrightarrow> glob (p @ q) k \<longleftrightarrow> (\<exists>s. k = p @ s \<and> glob q s)"
proof (induction p arbitrary: k)
  case (Cons c p)
  then show ?case by (cases k) (auto simp: glob_free_def)
qed simp

lemma glob_exact: "glob_free p \<Longrightarrow> glob p k \<longleftrightarrow> k = p"
  using glob_plain [of p "[]" k] by simp

lemma glob_star: "glob (CHR ''*'' # p) s \<longleftrightarrow> (\<exists>m t. s = m @ t \<and> glob p t)"
proof (induction s)
  case Nil
  then show ?case by simp
next
  case (Cons x s)
  have "glob (CHR ''*'' # p) (x # s) \<longleftrightarrow> glob p (x # s) \<or> (\<exists>m t. s = m @ t \<and> glob p t)"
    using Cons.IH by simp
  also have "\<dots> \<longleftrightarrow> (\<exists>m t. x # s = m @ t \<and> glob p t)"
    by (auto simp: Cons_eq_append_conv)
  finally show ?case .
qed

lemma glob_law: "glob_free p \<Longrightarrow> glob_free q \<Longrightarrow> glob (p @ ''*'' @ q) k \<longleftrightarrow> (\<exists>m. k = p @ m @ q)"
  by (auto simp: glob_plain glob_star glob_exact)

lemma mem_keys_put: "mem_keys (mem_put k (v, e) r) = (mem_keys r)(k \<mapsto> (rval_of v, e))"
  by (auto simp: mem_keys_def mem_put_def update_conv')

lemma map_of_filter_key: "map_of (filter (\<lambda>(k, _). P k) m) k = (if P k then map_of m k else None)"
  by (induction m) auto

lemma mem_keys_drop: "mem_keys (mem_drop xs r) = drop_keys (set xs) (mem_keys r)"
  by (auto simp: mem_keys_def mem_drop_def drop_keys_def map_of_filter_key)

lemma mem_keys_None: "mem_keys r k = None \<longleftrightarrow> k \<notin> fst ` set (mem_db r)"
  by (simp add: mem_keys_def map_of_eq_None_iff)

lemma mem_set_of_law:
  "set_typed (mem_keys r) k \<Longrightarrow> \<exists>xs. mem_set_of r k = Inr xs \<and> distinct xs \<and> set xs = members (mem_keys r) k"
  by (auto simp: mem_set_of_def set_typed_def members_def mem_keys_def split: option.splits mem_val.splits)

lemma mem_keys_renew:
  "mem_keys (snd (mem_PExpireAll cmds r)) = renew_keys (mem_clock r) cmds (mem_keys r)"
proof
  fix k
  have "map_of (map (\<lambda>(k, v, e). (k, v, f k e)) m) k = map_option (\<lambda>(v, e). (v, f k e)) (map_of m k)"
    for f :: "string \<Rightarrow> int option \<Rightarrow> int option" and m :: "(string, mem_val \<times> int option) gomap"
    by (induction m) auto
  then show "mem_keys (snd (mem_PExpireAll cmds r)) k = renew_keys (mem_clock r) cmds (mem_keys r) k"
    by (auto simp: mem_keys_def mem_PExpireAll_def renew_keys_def option.map_comp comp_def
        split: option.splits intro!: option.map_cong)
qed

lemma mem_clock_simps [simp]:
  "mem_clock (mem_put k v r) = mem_clock r" "mem_clock (mem_drop xs r) = mem_clock r"
  "mem_clock (snd (mem_PExpireAll cmds r)) = mem_clock r"
  by (simp_all add: mem_put_def mem_drop_def mem_PExpireAll_def)

lemma mem_Rename_law:
  assumes "mem_keys r a \<noteq> None" and "a \<noteq> b"
  shows "\<exists>r'. mem_Rename a b r = (None, r') \<and> mem_clock r' = mem_clock r
    \<and> mem_keys r' = rename_key a b (mem_keys r)"
proof -
  obtain v e where v: "map_of (mem_db r) a = Some (v, e)" using assms(1) by (auto simp: mem_keys_def)
  then have "mem_keys r a = Some (rval_of v, e)" by (simp add: mem_keys_def)
  then have "mem_keys (mem_put b (v, e) (mem_drop [a] r)) = rename_key a b (mem_keys r)"
    by (auto simp: mem_keys_put mem_keys_drop rename_key_def drop_keys_def)
  with v show ?thesis by (auto simp: mem_Rename_def)
qed

lemma mem_SAdd_law:
  assumes "set_typed (mem_keys r) k" and "xs \<noteq> []"
  shows "\<exists>r'. mem_SAdd k xs r = (None, r') \<and> mem_clock r' = mem_clock r
    \<and> mem_keys r' = add_members k xs (mem_keys r)"
proof (cases "map_of (mem_db r) k")
  case None
  then have n: "mem_keys r k = None" by (simp add: mem_keys_def)
  have "mem_keys (mem_put k (MSet xs, None) r) = add_members k xs (mem_keys r)"
    by (simp add: mem_keys_put add_members_def members_def n)
  with None assms(2) show ?thesis by (simp add: mem_SAdd_def)
next
  case (Some x)
  then obtain ys e where x: "x = (MSet ys, e)" using assms(1)
    by (cases x; cases "fst x") (auto simp: set_typed_def mem_keys_def)
  with Some have n: "mem_keys r k = Some (RSet (set ys), e)" by (simp add: mem_keys_def)
  have "mem_keys (mem_put k (MSet (ys @ xs), e) r) = add_members k xs (mem_keys r)"
    by (simp add: mem_keys_put add_members_def members_def n)
  with Some x assms(2) show ?thesis by (simp add: mem_SAdd_def)
qed

lemma mem_SDiff_law:
  assumes "set_typed (mem_keys r) a" and "set_typed (mem_keys r) b"
  shows "\<exists>xs. mem_SDiff a b r = (Inr xs, r) \<and> distinct xs
    \<and> set xs = members (mem_keys r) a - members (mem_keys r) b"
  using mem_set_of_law [OF assms(1)] mem_set_of_law [OF assms(2)] by (auto simp: mem_SDiff_def)

interpretation mem: redis mem_client mem_keys "\<lambda>_. True" mem_clock
proof (unfold_locales, goal_cases)
  case (1 r k)
  then have "map_of (mem_db r) k = None" by (simp add: mem_keys_def)
  then show ?case by (simp add: mem_client_def mem_Get_def)
next
  case (2 r k v)
  then show ?case
    by (auto simp: mem_client_def mem_Get_def str_at_def mem_keys_def split: option.splits mem_val.splits)
next
  case (3 r p q)
  from glob_law [OF 3(2,3)] show ?case by (auto simp: mem_client_def mem_keys_None)
next
  case (4 r d k v)
  then show ?case by (simp add: mem_client_def mem_keys_put)
next
  case (5 r k)
  then show ?case by (simp add: mem_client_def mem_keys_None)
next
  case (6 r a b)
  from mem_Rename_law [OF 6(2,3)] show ?case by (simp add: mem_client_def)
next
  case (7 r a b)
  then have "map_of (mem_db r) a = None" by (simp add: mem_keys_def)
  then show ?case by (simp add: mem_client_def mem_Rename_def)
next
  case (8 r xs)
  then show ?case by (simp add: mem_client_def mem_keys_drop)
next
  case (9 r)
  then show ?case by (simp add: mem_client_def)
next
  case (10 r k)
  from mem_set_of_law [OF 10(2)] show ?case by (simp add: mem_client_def)
next
  case (11 r k xs)
  from mem_SAdd_law [OF 11(2,3)] show ?case by (simp add: mem_client_def)
next
  case (12 r a b)
  from mem_SDiff_law [OF 12(2,3)] show ?case by (auto simp: mem_client_def)
next
  case (13 r cmds)
  have "fst (mem_PExpireAll cmds r) = Inr (map (\<lambda>(k, _). mem_keys r k \<noteq> None) cmds)"
    by (auto simp: mem_PExpireAll_def mem_keys_None)
  then show ?case
    by (intro exI [of _ "snd (mem_PExpireAll cmds r)"]) (simp add: mem_client_def mem_keys_renew prod_eq_iff)
qed

end
