(* ===== verification/Store.thy ===== *)
theory Store
  imports Merge Redis
begin

text \<open>
  The Redis store, \<^verbatim>\<open>store.go\<close>.

  A \<open>RedisStore\<close> holds the fields of the Go struct and what its methods interact with: the client,
  the state of the server, the clock and the seeds of the map iterations. The mutex makes \<open>Store\<close> and
  \<open>KeepConfAlive\<close> atomic with respect to each other, so each is one function on the state. The layout
  of traefik's configuration types as reflection sees it belongs to traefik: it is the argument
  \<open>reflect\<close>, which also takes the seed of the order in which the walk visits the maps. \<open>DeepCopy\<close> is
  the identity on values. An error is \<open>Some e\<close> or \<open>Inl e\<close>, a panic \<open>None\<close>.

  The lemmas here need no law of the server: which fields a method may change, and that the last
  configuration is remembered exactly when the whole store succeeds.
\<close>

section \<open>The store\<close>

record 'r RedisStore =
  Hostname :: string
  TTL :: int
  lastConfig :: "configuration option"
  client :: "'r redis_client"
  server :: 'r
  unix_time :: "nat \<Rightarrow> int"
  order_seed :: "nat \<Rightarrow> nat"
  tick :: nat

definition call :: "('r redis_client \<Rightarrow> 'r \<Rightarrow> 'a \<times> 'r) \<Rightarrow> 'r RedisStore \<Rightarrow> 'a \<times> 'r RedisStore" where
  "call f s = (let (x, r) = f (client s) (server s) in (x, s\<lparr>server := r\<rparr>))"

definition any_order :: "'a list \<Rightarrow> 'r RedisStore \<Rightarrow> 'a list \<times> 'r RedisStore" where
  "any_order xs s = (permute (order_seed s (tick s)) xs, s\<lparr>tick := Suc (tick s)\<rparr>)"

definition Unix_now :: "'r RedisStore \<Rightarrow> int \<times> 'r RedisStore" where
  "Unix_now s = (unix_time s (tick s), s\<lparr>tick := Suc (tick s)\<rparr>)"

definition Ping :: "'r RedisStore \<Rightarrow> string option \<times> 'r RedisStore" where
  "Ping s = call rc_Ping s"

definition sk :: "string \<Rightarrow> string \<Rightarrow> string" where
  "sk host b = ''traefik_'' @ b @ ''@'' @ host"

definition Get :: "string \<Rightarrow> 'r RedisStore \<Rightarrow> (string + string) \<times> 'r RedisStore" where
  "Get key s =
     (let (r, s) = call (\<lambda>c. rc_Get c key) s
      in ((case r of
             Inl e \<Rightarrow> Inl (''failed to get key '' @ key @ '': '' @ e)
           | Inr None \<Rightarrow> Inr []
           | Inr (Some v) \<Rightarrow> Inr v), s))"

fun get_values :: "string list \<Rightarrow> (string, string) gomap \<Rightarrow> 'r RedisStore
    \<Rightarrow> (string + (string, string) gomap) \<times> 'r RedisStore" where
  "get_values [] vals s = (Inr vals, s)"
| "get_values (k # ks) vals s =
     (let (r, s) = Get k s
      in case r of
           Inl e \<Rightarrow> (Inl (''failed to get value for key '' @ k @ '': '' @ e), s)
         | Inr v \<Rightarrow> get_values ks (AList.update k v vals) s)"

definition Gets :: "string \<Rightarrow> 'r RedisStore \<Rightarrow> (string + (string, string) gomap) \<times> 'r RedisStore" where
  "Gets key s =
     (let (r, s) = call (\<lambda>c. rc_Keys c key) s
      in case r of
           Inl e \<Rightarrow> (Inl (''failed to get keys matching '' @ key @ '': '' @ e), s)
         | Inr keys \<Rightarrow> if keys = [] then (Inr [], s) else get_values keys [] s)"

definition slashes :: "string \<Rightarrow> string" where
  "slashes s = map (\<lambda>c. if c = CHR ''_'' then CHR ''/'' else c) s"

definition k_path :: "string \<Rightarrow> string \<Rightarrow> string" where
  "k_path setname b = slashes (''traefik_'' @ setname) @ ''/'' @ stripDocker b"

fun removeKeys :: "string \<Rightarrow> string list \<Rightarrow> 'r RedisStore \<Rightarrow> string option \<times> 'r RedisStore" where
  "removeKeys setname [] s = (None, s)"
| "removeKeys setname (removeKey # keys) s =
     (let (r, s) = call (\<lambda>c. rc_Keys c (k_path setname removeKey @ ''/*'')) s
      in case r of
           Inl e \<Rightarrow> (Some (''fetch failed: '' @ e), s)
         | Inr res \<Rightarrow>
             let (err, s) = call (\<lambda>c. rc_Unlink c res) s
             in case err of
                  Some e \<Rightarrow> (Some (''unlink failed: '' @ e), s)
                | None \<Rightarrow> removeKeys setname keys s)"

definition removeOldKeys :: "string list \<Rightarrow> string \<Rightarrow> 'r RedisStore \<Rightarrow> string option \<times> 'r RedisStore" where
  "removeOldKeys names setname s =
     (let setkey = sk (Hostname s) setname;
          (newkeys, s) = any_order names s
      in if newkeys = []
         then let (r, s) = call (\<lambda>c. rc_SMembers c setkey) s
              in case r of Inl e \<Rightarrow> (Some (''fetch failed: '' @ e), s) | Inr res \<Rightarrow> removeKeys setname res s
         else let (err, s) = call (\<lambda>c. rc_SAdd c (setkey @ ''_new'') newkeys) s
              in case err of
                   Some e \<Rightarrow> (Some (''add failed: '' @ e), s)
                 | None \<Rightarrow>
                     let (r, s) = call (\<lambda>c. rc_SDiff c setkey (setkey @ ''_new'')) s
                     in case r of Inl e \<Rightarrow> (Some (''diff failed: '' @ e), s)
                        | Inr res \<Rightarrow> removeKeys setname res s)"

definition swapKeys :: "string \<Rightarrow> 'r RedisStore \<Rightarrow> string option \<times> 'r RedisStore" where
  "swapKeys setkey s =
     (let (err, s) = call (\<lambda>c. rc_Rename c (setkey @ ''_new'') setkey) s
      in case err of
           None \<Rightarrow> (None, s)
         | Some e \<Rightarrow>
             if Contains e ''no such key'' then (None, snd (call (\<lambda>c. rc_Unlink c [setkey]) s))
             else (Some (''rename failed: '' @ e), s))"

definition servers_prefix :: "string \<Rightarrow> string \<Rightarrow> string" where
  "servers_prefix proto name = ''traefik/'' @ proto @ ''/services/'' @ stripDocker name @ ''/loadBalancer/servers/''"

fun unlink_stale :: "(string, string) gomap \<Rightarrow> string list \<Rightarrow> 'r RedisStore \<Rightarrow> 'r RedisStore" where
  "unlink_stale kv [] s = s"
| "unlink_stale kv (key # keys) s =
     unlink_stale kv keys (if map_of kv key = None then snd (call (\<lambda>c. rc_Unlink c [key]) s) else s)"

fun stale_names :: "(string, string) gomap \<Rightarrow> string \<Rightarrow> string list \<Rightarrow> 'r RedisStore \<Rightarrow> 'r RedisStore" where
  "stale_names kv proto [] s = s"
| "stale_names kv proto (name # names) s =
     (let (r, s) = call (\<lambda>c. rc_Keys c (servers_prefix proto name @ ''*'')) s
      in stale_names kv proto names (case r of Inl e \<Rightarrow> s | Inr existingKeys \<Rightarrow> unlink_stale kv existingKeys s))"

definition removeStaleServerKeys :: "(string, string) gomap \<Rightarrow> string list \<Rightarrow> string \<Rightarrow> 'r RedisStore \<Rightarrow> 'r RedisStore" where
  "removeStaleServerKeys kv names proto s =
     (let (names, s) = any_order names s in stale_names kv proto names s)"

fun write_keys :: "(string, string) gomap \<Rightarrow> string list \<Rightarrow> 'r RedisStore \<Rightarrow> string option \<times> 'r RedisStore" where
  "write_keys kv [] s = (None, s)"
| "write_keys kv (k # ks) s =
     (let (err, s) = call (\<lambda>c. rc_Set c k (get_str kv k) (TTL s)) s
      in case err of
           Some e \<Rightarrow> (Some (''failed to write key '' @ k @ '': '' @ e), s)
         | None \<Rightarrow> write_keys kv ks s)"

text \<open>The tracked sets and the names each of them gets, in the order of the calls; the services.\<close>

definition tracked :: "configuration \<Rightarrow> (string \<times> string list) list option" where
  "tracked conf = do {
     h \<leftarrow> HTTP conf; t \<leftarrow> TCP conf; u \<leftarrow> UDP conf;
     Some [(''http_middlewares'', keys_of (Middlewares h)), (''http_routers'', keys_of (Routers h)),
           (''http_services'', keys_of (Services h)), (''tcp_middlewares'', keys_of (Middlewares t)),
           (''tcp_routers'', keys_of (Routers t)), (''tcp_services'', keys_of (Services t)),
           (''udp_routers'', keys_of (Routers u)), (''udp_services'', keys_of (Services u))]
   }"

fun removeOldAll :: "(string \<times> string list) list \<Rightarrow> 'r RedisStore \<Rightarrow> 'r RedisStore" where
  "removeOldAll [] s = s"
| "removeOldAll ((setname, names) # sets) s = removeOldAll sets (snd (removeOldKeys names setname s))"

fun swapAll :: "(string \<times> string list) list \<Rightarrow> 'r RedisStore \<Rightarrow> 'r RedisStore" where
  "swapAll [] s = s"
| "swapAll ((setname, _) # sets) s = swapAll sets (snd (swapKeys (sk (Hostname s) setname) s))"

type_synonym reflection = "nat \<Rightarrow> configuration \<Rightarrow> gval"

definition walk_configuration :: "reflection \<Rightarrow> configuration \<Rightarrow> 'r RedisStore
    \<Rightarrow> (string + (string, string) gomap) \<times> 'r RedisStore" where
  "walk_configuration reflect conf s =
     (ConfigToKV (reflect (order_seed s (tick s)) conf), s\<lparr>tick := Suc (tick s)\<rparr>)"

text \<open>The part of \<open>store\<close> after the key/value pairs are known.\<close>

definition store_pairs :: "(string \<times> string list) list \<Rightarrow> configuration \<Rightarrow> (string, string) gomap
    \<Rightarrow> 'r RedisStore \<Rightarrow> string option \<times> 'r RedisStore" where
  "store_pairs sets conf kv s =
     (let (err, s) = write_keys kv (sort (keys_of kv)) s
      in case err of
           Some e \<Rightarrow> (Some e, s)
         | None \<Rightarrow>
             let s = removeStaleServerKeys kv (keys_of (services (HTTP conf))) ''http'' s;
                 s = removeStaleServerKeys kv (keys_of (services (TCP conf))) ''tcp'' s;
                 s = removeStaleServerKeys kv (keys_of (services (UDP conf))) ''udp'' s;
                 s = swapAll sets s;
                 (now, s) = Unix_now s;
                 (err, s) = call (\<lambda>c. rc_Set c (sk (Hostname s) ''kop_last_update'') (FormatInt now) (TTL s)) s
             in case err of
                  Some e \<Rightarrow> (Some (''failed to write Redis sentinel: '' @ e), s)
                | None \<Rightarrow> (None, s\<lparr>lastConfig := Some conf\<rparr>))"

definition store :: "reflection \<Rightarrow> configuration \<Rightarrow> 'r RedisStore \<Rightarrow> (string option \<times> 'r RedisStore) option" where
  "store reflect conf s = do {
     sets \<leftarrow> tracked conf;
     let s = removeOldAll sets s;
     let (kv, s) = walk_configuration reflect conf s;
     Some (case kv of Inl e \<Rightarrow> (Some e, s) | Inr kv \<Rightarrow> store_pairs sets conf kv s)
   }"

definition Store :: "reflection \<Rightarrow> configuration \<Rightarrow> 'r RedisStore \<Rightarrow> (string option \<times> 'r RedisStore) option" where
  "Store reflect conf s = store reflect conf s"

definition KeepConfAlive :: "reflection \<Rightarrow> 'r RedisStore \<Rightarrow> (string option \<times> 'r RedisStore) option" where
  "KeepConfAlive reflect s =
     (case lastConfig s of
        None \<Rightarrow> Some (None, s)
      | Some conf \<Rightarrow>
          let sentinel = sk (Hostname s) ''kop_last_update'';
              (exists, s) = call (\<lambda>c. rc_Exists c sentinel) s
          in case exists of
               Inl e \<Rightarrow> Some (Some (''failed to check Redis sentinel: '' @ e), s)
             | Inr n \<Rightarrow>
                 if n = 0 then store reflect conf s
                 else if TTL s \<le> 0 then Some (None, s)
                 else let (kv, s) = walk_configuration reflect conf s
                      in case kv of
                           Inl e \<Rightarrow> Some (Some e, s)
                         | Inr kv \<Rightarrow>
                             let (keys, s) = any_order (keys_of kv) s;
                                 commands = map (\<lambda>k. (k, TTL s)) (keys @ [sentinel]);
                                 (r, s) = call (\<lambda>c. rc_PExpireAll c commands) s
                             in case r of
                                  Inl e \<Rightarrow> Some (Some (''failed to renew Redis configuration TTL: '' @ e), s)
                                | Inr vals \<Rightarrow> if list_all (\<lambda>b. b) vals then Some (None, s)
                                              else store reflect conf s)"

text \<open>The store as an implementation of the interface.\<close>

definition redis_store :: "reflection \<Rightarrow> 'r RedisStore TraefikStore" where
  "redis_store reflect = \<lparr>ts_Store = Store reflect, ts_Get = Get, ts_Gets = Gets, ts_Ping = Ping,
     ts_KeepConfAlive = KeepConfAlive reflect\<rparr>"

section \<open>Frames and errors\<close>

text \<open>A step changes the server and the clock only.\<close>

definition same_store :: "'r RedisStore \<Rightarrow> 'r RedisStore \<Rightarrow> bool" where
  "same_store s s' \<longleftrightarrow> Hostname s' = Hostname s \<and> TTL s' = TTL s \<and> lastConfig s' = lastConfig s
     \<and> client s' = client s \<and> unix_time s' = unix_time s \<and> order_seed s' = order_seed s"

lemma same_store_refl [simp]: "same_store s s"
  by (simp add: same_store_def)

lemma same_store_trans: "same_store s t \<Longrightarrow> same_store t u \<Longrightarrow> same_store s u"
  by (simp add: same_store_def)

lemma same_store_bind:
  assumes "same_store s (snd p)" and "\<And>x t. same_store s t \<Longrightarrow> same_store s (snd (g x t))"
  shows "same_store s (snd (case p of (x, t) \<Rightarrow> g x t))"
  using assms by (cases p) auto

lemma same_store_step:
  assumes "same_store s t"
  shows "same_store s (snd (call f t))" "same_store s (snd (any_order xs t))"
    "same_store s (snd (walk_configuration reflect conf t))" "same_store s (snd (Unix_now t))"
  using assms
  by (simp_all add: same_store_def call_def any_order_def walk_configuration_def Unix_now_def
      split: prod.splits)

lemma same_store_removeKeys: "same_store s t \<Longrightarrow> same_store s (snd (removeKeys setname xs t))"
proof (induction xs arbitrary: t)
  case (Cons x xs)
  show ?case unfolding removeKeys.simps Let_def
    by (intro same_store_bind same_store_step Cons.prems)
       (auto split: sum.split option.split intro!: same_store_bind same_store_step Cons.IH)
qed simp

lemma same_store_removeOldKeys: "same_store s t \<Longrightarrow> same_store s (snd (removeOldKeys names setname t))"
  unfolding removeOldKeys_def Let_def
  by (intro same_store_bind same_store_step) (auto split: sum.split option.split
        intro!: same_store_bind same_store_step same_store_removeKeys)

lemma same_store_removeOldAll: "same_store s t \<Longrightarrow> same_store s (removeOldAll sets t)"
  by (induction sets arbitrary: t) (auto simp: same_store_removeOldKeys)

lemma same_store_swapKeys: "same_store s t \<Longrightarrow> same_store s (snd (swapKeys setkey t))"
  unfolding swapKeys_def Let_def
  by (intro same_store_bind same_store_step) (auto split: option.split intro: same_store_step)

lemma same_store_swapAll: "same_store s t \<Longrightarrow> same_store s (swapAll sets t)"
  by (induction sets arbitrary: t) (auto simp: same_store_swapKeys)

lemma same_store_unlink_stale: "same_store s t \<Longrightarrow> same_store s (unlink_stale kv ks t)"
  by (induction ks arbitrary: t) (auto simp: same_store_step)

lemma same_store_stale_names: "same_store s t \<Longrightarrow> same_store s (stale_names kv proto names t)"
proof (induction names arbitrary: t)
  case (Cons n names)
  obtain r t' where c: "call (\<lambda>c. rc_Keys c (servers_prefix proto n @ ''*'')) t = (r, t')" by fastforce
  with same_store_step(1) [OF Cons.prems] have "same_store s t'" by (metis snd_conv)
  then have "same_store s (case r of Inl e \<Rightarrow> t' | Inr existingKeys \<Rightarrow> unlink_stale kv existingKeys t')"
    by (auto simp: same_store_unlink_stale split: sum.split)
  with Cons.IH c show ?case by simp
qed simp

lemma same_store_removeStale: "same_store s t \<Longrightarrow> same_store s (removeStaleServerKeys kv names proto t)"
  using same_store_step(2) [of s t names]
  by (cases "any_order names t") (simp add: removeStaleServerKeys_def same_store_stale_names)

lemma same_store_write_keys: "same_store s t \<Longrightarrow> same_store s (snd (write_keys kv ks t))"
proof (induction ks arbitrary: t)
  case (Cons x xs)
  show ?case unfolding write_keys.simps Let_def
    by (intro same_store_bind same_store_step Cons.prems) (auto split: option.split intro: Cons.IH)
qed simp

lemmas same_store_rules = same_store_step same_store_removeOldAll same_store_swapAll
  same_store_removeStale same_store_write_keys

text \<open>The configuration is remembered exactly when the whole store succeeds.\<close>

definition stored :: "configuration \<Rightarrow> 'r RedisStore \<Rightarrow> string option \<Rightarrow> 'r RedisStore \<Rightarrow> bool" where
  "stored conf s err s' =
     (case err of None \<Rightarrow> same_store (s\<lparr>lastConfig := Some conf\<rparr>) s' | Some _ \<Rightarrow> same_store s s')"

lemma stored_pairs:
  assumes "same_store s t" and "store_pairs sets conf kv t = (err, s')"
  shows "stored conf s err s'"
proof -
  obtain e t1 where 1: "write_keys kv (sort (keys_of kv)) t = (e, t1)" by fastforce
  then have t1: "same_store s t1" using same_store_write_keys [OF assms(1)] by (metis snd_conv)
  show ?thesis
  proof (cases e)
    case (Some x)
    with 1 assms(2) t1 show ?thesis by (auto simp: store_pairs_def stored_def)
  next
    case None
    define t2 where "t2 = swapAll sets (removeStaleServerKeys kv (keys_of (services (UDP conf))) ''udp''
      (removeStaleServerKeys kv (keys_of (services (TCP conf))) ''tcp''
        (removeStaleServerKeys kv (keys_of (services (HTTP conf))) ''http'' t1)))"
    have t2: "same_store s t2" unfolding t2_def by (intro same_store_rules t1)
    obtain now t3 where 3: "Unix_now t2 = (now, t3)" by fastforce
    obtain e' t4 where 4: "call (\<lambda>c. rc_Set c (sk (Hostname t3) ''kop_last_update'') (FormatInt now) (TTL t3)) t3 = (e', t4)"
      by fastforce
    have "same_store s t3" using same_store_step(4) [OF t2] 3 by (metis snd_conv)
    then have t4: "same_store s t4" using same_store_step(1) 4 by (metis snd_conv)
    have "store_pairs sets conf kv t = (case e' of
        Some e \<Rightarrow> (Some (''failed to write Redis sentinel: '' @ e), t4)
      | None \<Rightarrow> (None, t4\<lparr>lastConfig := Some conf\<rparr>))"
      using 1 None 3 4 by (simp add: store_pairs_def Let_def t2_def)
    with assms(2) t4 show ?thesis by (cases e') (auto simp: stored_def same_store_def)
  qed
qed

lemma store_stored:
  assumes "store reflect conf s = Some (err, s')"
  shows "stored conf s err s'"
proof -
  from assms obtain sets where sets: "tracked conf = Some sets" by (auto simp: store_def bind_eq_Some_conv)
  obtain kv t where t: "walk_configuration reflect conf (removeOldAll sets s) = (kv, t)" by fastforce
  have "same_store s (removeOldAll sets s)" by (simp add: same_store_removeOldAll)
  then have st: "same_store s t" using same_store_step(3) t by (metis snd_conv)
  show ?thesis
  proof (cases kv)
    case (Inl e)
    with assms sets t st show ?thesis by (auto simp: store_def stored_def Let_def)
  next
    case (Inr m)
    with assms sets t have "store_pairs sets conf m t = (err, s')" by (simp add: store_def Let_def)
    with stored_pairs [OF st] show ?thesis by blast
  qed
qed

end
