(* ===== verification/Publish.thy ===== *)
theory Publish
  imports Store
begin

text \<open>
  What the Redis store does to the key space. \<open>publish\<close> is the abstract specification: the key
  space after a store, key by key. The lemma \<open>store_publishes\<close> says that \<open>store\<close> implements it on
  every server that obeys the laws of \<open>redis\<close>; \<open>KeepConfAlive_renews\<close> and \<open>KeepConfAlive_restores\<close> are the two
  cases of the renewal, \<open>Gets_reach\<close> the reading of the published values.
\<close>

section \<open>The effect of the steps on the key space\<close>

definition under :: "string \<Rightarrow> string set \<Rightarrow> string set" where
  "under setname N = {k. \<exists>n \<in> N. HasPrefix k (k_path setname n @ ''/'')}"

definition drop_stale :: "(string, string) gomap \<Rightarrow> string \<Rightarrow> string list \<Rightarrow> keyspace \<Rightarrow> keyspace" where
  "drop_stale kv proto names =
     drop_keys {k. map_of kv k = None \<and> (\<exists>n \<in> set names. HasPrefix k (servers_prefix proto n))}"

definition write_pairs :: "int \<Rightarrow> int \<Rightarrow> (string, string) gomap \<Rightarrow> string set \<Rightarrow> keyspace \<Rightarrow> keyspace" where
  "write_pairs now ttl kv K ks = (\<lambda>k. if k \<in> K then Some (RString (get_str kv k), expiry now ttl) else ks k)"

lemma drop_keys_drop: "drop_keys A (drop_keys B ks) = drop_keys (A \<union> B) ks"
  by (auto simp: drop_keys_def)

lemma drop_keys_empty [simp]: "drop_keys {} ks = ks"
  by (simp add: drop_keys_def)

lemma under_Un: "under setname (A \<union> B) = under setname A \<union> under setname B"
  by (auto simp: under_def)

lemma prefix_iff_append: "HasPrefix k p \<longleftrightarrow> (\<exists>m. k = p @ m)"
  by (auto simp: prefix_def)

text \<open>The keys of the tracking sets of a host.\<close>

definition new_key :: "string \<Rightarrow> string \<Rightarrow> string" where
  "new_key host b = sk host b @ ''_new''"

lemma at_split: "a @ c # x = b @ c # y \<Longrightarrow> c \<notin> set a \<Longrightarrow> c \<notin> set b \<Longrightarrow> a = b \<and> x = y"
  by (auto simp: append_eq_append_conv2 Cons_eq_append_conv append_eq_Cons_conv)

lemma sk_inj:
  assumes "CHR ''@'' \<notin> set b" and "CHR ''@'' \<notin> set c"
  shows "sk host b = sk host c \<longleftrightarrow> b = c" "new_key host b = new_key host c \<longleftrightarrow> b = c"
    "new_key host b \<noteq> sk host c" "sk host c \<noteq> new_key host b"
  using at_split [of b "CHR ''@''" host c host] at_split [of b "CHR ''@''" "host @ ''_new''" c host] assms
  by (auto simp: sk_def new_key_def)

lemma k_path_eq: "k_path setname n = ''traefik/'' @ slashes setname @ ''/'' @ stripDocker n"
  by (simp add: k_path_def slashes_def)

text \<open>No configuration key is a tracking key.\<close>

lemma tracking_not_under [simp]:
  "sk host b \<notin> under setname N" "new_key host b \<notin> under setname N"
  by (auto simp: under_def k_path_eq sk_def new_key_def)

definition old_names :: "string \<Rightarrow> string \<Rightarrow> string list \<Rightarrow> keyspace \<Rightarrow> string set" where
  "old_names host b names ks = members ks (sk host b) - set names"

definition populated :: "string \<Rightarrow> string set \<Rightarrow> keyspace \<Rightarrow> bool" where
  "populated setname N ks \<longleftrightarrow>
     (\<forall>n \<in> N. \<exists>k. ks k \<noteq> None \<and> k \<in> under setname {n} \<and> k \<notin> under setname (N - {n}))"

definition with_new :: "string \<Rightarrow> string \<Rightarrow> string list \<Rightarrow> keyspace \<Rightarrow> keyspace" where
  "with_new host b names ks = (if names = [] then ks else ks(new_key host b \<mapsto> (RSet (set names), None)))"

definition with_news :: "string \<Rightarrow> (string \<times> string list) list \<Rightarrow> keyspace \<Rightarrow> keyspace" where
  "with_news host sets ks = fold (\<lambda>(b, names). with_new host b names) sets ks"

definition tracking_ok :: "string \<Rightarrow> keyspace \<Rightarrow> string \<Rightarrow> bool" where
  "tracking_ok host ks b \<longleftrightarrow> set_typed ks (sk host b) \<and> ks (new_key host b) = None \<and> CHR ''@'' \<notin> set b
     \<and> (\<forall>n \<in> members ks (sk host b). glob_free (k_path b n))"

definition separated :: "string set \<Rightarrow> bool" where
  "separated B \<longleftrightarrow> (\<forall>b \<in> B. \<forall>c \<in> B. b \<noteq> c \<longrightarrow> (\<forall>M N. under b M \<inter> under c N = {}))"

definition old_keys :: "string \<Rightarrow> (string \<times> string list) list \<Rightarrow> keyspace \<Rightarrow> string set" where
  "old_keys host sets ks = (\<Union>(b, names) \<in> set sets. under b (old_names host b names ks))"

definition all_populated :: "string \<Rightarrow> (string \<times> string list) list \<Rightarrow> keyspace \<Rightarrow> bool" where
  "all_populated host sets ks = list_all (\<lambda>(b, names). populated b (old_names host b names ks) ks) sets"

lemma with_new_drop: "new_key host b \<notin> U \<Longrightarrow> with_new host b names (drop_keys U ks) = drop_keys U (with_new host b names ks)"
  by (auto simp: with_new_def drop_keys_def)

lemma with_news_drop:
  "\<forall>b. new_key host b \<notin> U \<Longrightarrow> with_news host sets (drop_keys U ks) = drop_keys U (with_news host sets ks)"
  unfolding with_news_def by (induction sets arbitrary: ks) (auto simp: with_new_drop)

text \<open>One step of \<open>removeOldAll\<close> leaves the data of the other sets as they were.\<close>

definition one_removed :: "string \<Rightarrow> string \<Rightarrow> string list \<Rightarrow> string set \<Rightarrow> keyspace \<Rightarrow> keyspace" where
  "one_removed host b names N ks = drop_keys (under b N) (with_new host b names ks)"

lemma one_removed_other:
  assumes "CHR ''@'' \<notin> set b" and "CHR ''@'' \<notin> set c" and "b \<noteq> c"
  shows "one_removed host b names N ks (sk host c) = ks (sk host c)"
    and "one_removed host b names N ks (new_key host c) = ks (new_key host c)"
    and "old_names host c names' (one_removed host b names N ks) = old_names host c names' ks"
    and "tracking_ok host (one_removed host b names N ks) c = tracking_ok host ks c"
proof -
  have n: "new_key host c \<noteq> new_key host b" "sk host c \<noteq> new_key host b"
    using sk_inj(2) [OF assms(2,1)] sk_inj(4) [OF assms(1,2)] assms(3) by auto
  show 1: "one_removed host b names N ks (sk host c) = ks (sk host c)"
    "one_removed host b names N ks (new_key host c) = ks (new_key host c)"
    using n by (simp_all add: one_removed_def drop_keys_def with_new_def)
  then show "old_names host c names' (one_removed host b names N ks) = old_names host c names' ks"
    "tracking_ok host (one_removed host b names N ks) c = tracking_ok host ks c"
    by (simp_all add: old_names_def members_def tracking_ok_def set_typed_def)
qed

lemma one_removed_populated:
  assumes "populated c M ks" and "under b N \<inter> under c M = {}"
  shows "populated c M (one_removed host b names N ks)"
  unfolding populated_def
proof
  fix n
  assume n: "n \<in> M"
  with assms(1) obtain k where k: "ks k \<noteq> None" "k \<in> under c {n}" "k \<notin> under c (M - {n})"
    unfolding populated_def by blast
  have "k \<in> under c M" using k(2) n by (auto simp: under_def)
  with assms(2) have "k \<notin> under b N" by blast
  with k(1) have "one_removed host b names N ks k \<noteq> None"
    by (auto simp: one_removed_def drop_keys_def with_new_def)
  with k show "\<exists>k. one_removed host b names N ks k \<noteq> None \<and> k \<in> under c {n} \<and> k \<notin> under c (M - {n})"
    by blast
qed

lemma one_removed_rest:
  assumes "CHR ''@'' \<notin> set b" and "\<forall>c \<in> set (keys_of sets). CHR ''@'' \<notin> set c \<and> b \<noteq> c"
  shows "old_keys host sets (one_removed host b names N ks) = old_keys host sets ks"
    and "all_populated host sets ks \<Longrightarrow> \<forall>(c, ns) \<in> set sets. under b N \<inter> under c (old_names host c ns ks) = {}
      \<Longrightarrow> all_populated host sets (one_removed host b names N ks)"
proof -
  have same: "old_names host c ns (one_removed host b names N ks) = old_names host c ns ks" if "(c, ns) \<in> set sets" for c ns
    using assms that by (intro one_removed_other(3)) force+
  show "old_keys host sets (one_removed host b names N ks) = old_keys host sets ks"
    unfolding old_keys_def by (rule SUP_cong) (auto simp: same)
  show "all_populated host sets (one_removed host b names N ks)"
    if p: "all_populated host sets ks" "\<forall>(c, ns) \<in> set sets. under b N \<inter> under c (old_names host c ns ks) = {}"
  proof -
    have "populated c (old_names host c ns ks) (one_removed host b names N ks)" if "(c, ns) \<in> set sets" for c ns
      using p that by (intro one_removed_populated) (auto simp: all_populated_def list_all_iff)
    then show ?thesis by (auto simp: all_populated_def list_all_iff same)
  qed
qed

definition swap_one :: "string \<Rightarrow> string \<Rightarrow> keyspace \<Rightarrow> keyspace" where
  "swap_one host b ks = ks(sk host b := ks (new_key host b), new_key host b := None)"

definition swap_all :: "string \<Rightarrow> (string \<times> string list) list \<Rightarrow> keyspace \<Rightarrow> keyspace" where
  "swap_all host sets ks = fold (\<lambda>(b, _). swap_one host b) sets ks"

lemma new_key_not_sk: "new_key host b \<noteq> sk host b" "sk host b \<noteq> new_key host b"
  by (simp_all add: new_key_def)

lemma Contains_no_such_key: "Contains no_such_key ''no such key''"
  by (simp add: Contains_def no_such_key_def sublist_def exI [of _ "''ERR ''"] exI [of _ "[]"])

text \<open>
  The abstract specification of a store, key by key: the tracking sets hold the published names,
  the sentinel the time stamp, every pair is readable with the TTL; of the other keys those of
  \<open>P\<close> and the stale server keys are gone and the rest is untouched.
\<close>

definition stale_keys :: "configuration \<Rightarrow> string set" where
  "stale_keys conf = {k.
     (\<exists>n \<in> set (keys_of (services (HTTP conf))). HasPrefix k (servers_prefix ''http'' n))
     \<or> (\<exists>n \<in> set (keys_of (services (TCP conf))). HasPrefix k (servers_prefix ''tcp'' n))
     \<or> (\<exists>n \<in> set (keys_of (services (UDP conf))). HasPrefix k (servers_prefix ''udp'' n))}"

definition publish :: "string \<Rightarrow> int option \<Rightarrow> string \<Rightarrow> (string \<times> string list) list \<Rightarrow> configuration
    \<Rightarrow> (string \<rightharpoonup> string) \<Rightarrow> string set \<Rightarrow> keyspace \<Rightarrow> keyspace \<Rightarrow> bool" where
  "publish host ex stamp sets conf kv P ks ks' \<longleftrightarrow>
     (\<forall>(b, names) \<in> set sets.
        ks' (sk host b) = (if names = [] then None else Some (RSet (set names), None)) \<and> ks' (new_key host b) = None)
     \<and> ks' (sk host ''kop_last_update'') = Some (RString stamp, ex)
     \<and> (\<forall>k v. kv k = Some v \<longrightarrow> ks' k = Some (RString v, ex))
     \<and> (\<forall>k. kv k = None \<longrightarrow> (\<forall>b \<in> set (keys_of sets). k \<noteq> sk host b \<and> k \<noteq> new_key host b) \<longrightarrow>
          k \<noteq> sk host ''kop_last_update'' \<longrightarrow> ks' k = (if k \<in> P \<union> stale_keys conf then None else ks k))"

definition wf_sets :: "(string \<times> string list) list \<Rightarrow> bool" where
  "wf_sets sets \<longleftrightarrow> distinct (keys_of sets)
     \<and> (\<forall>b \<in> set (keys_of sets). CHR ''@'' \<notin> set b \<and> b \<noteq> ''kop_last_update'')"

lemma wf_sets_Cons:
  "wf_sets ((b, ns) # sets) \<longleftrightarrow> CHR ''@'' \<notin> set b \<and> b \<noteq> ''kop_last_update'' \<and> b \<notin> set (keys_of sets) \<and> wf_sets sets"
  by (auto simp: wf_sets_def)

lemma wf_sets_keys:
  assumes "wf_sets ((b, ns) # sets)" and "c \<in> set (keys_of sets)"
  shows "sk host b \<noteq> sk host c" "new_key host b \<noteq> new_key host c" "new_key host b \<noteq> sk host c"
    "sk host b \<noteq> new_key host c" "sk host c \<noteq> sk host b" "new_key host c \<noteq> new_key host b"
    "new_key host c \<noteq> sk host b" "sk host c \<noteq> new_key host b"
proof -
  have b: "CHR ''@'' \<notin> set b" and c: "CHR ''@'' \<notin> set c" and "b \<noteq> c"
    using assms by (auto simp: wf_sets_def)
  then show "sk host b \<noteq> sk host c" "new_key host b \<noteq> new_key host c" "new_key host b \<noteq> sk host c"
    "sk host b \<noteq> new_key host c" "sk host c \<noteq> sk host b" "new_key host c \<noteq> new_key host b"
    "new_key host c \<noteq> sk host b" "sk host c \<noteq> new_key host b"
    using sk_inj [OF b c] sk_inj [OF c b] by auto
qed

lemma swap_all_at:
  assumes "wf_sets sets"
  shows "(b, ns) \<in> set sets \<Longrightarrow> swap_all host sets ks (sk host b) = ks (new_key host b)"
    and "(b, ns) \<in> set sets \<Longrightarrow> swap_all host sets ks (new_key host b) = None"
    and "\<forall>c \<in> set (keys_of sets). k \<noteq> sk host c \<and> k \<noteq> new_key host c \<Longrightarrow> swap_all host sets ks k = ks k"
proof -
  have other: "swap_all host xs ks k = ks k"
    if "\<forall>c \<in> set (keys_of xs). k \<noteq> sk host c \<and> k \<noteq> new_key host c" for xs ks k
    using that unfolding swap_all_def by (induction xs arbitrary: ks) (auto simp: swap_one_def)
  then show "\<forall>c \<in> set (keys_of sets). k \<noteq> sk host c \<and> k \<noteq> new_key host c \<Longrightarrow> swap_all host sets ks k = ks k" .
  have both: "swap_all host xs ks (sk host b) = ks (new_key host b) \<and> swap_all host xs ks (new_key host b) = None"
    if "wf_sets xs" "(b, ns) \<in> set xs" for xs ks
    using that
  proof (induction xs arbitrary: ks)
    case (Cons x xs)
    obtain c ms where x: "x = (c, ms)" by (cases x)
    note w = Cons.prems(1) [unfolded x]
    show ?case
    proof (cases "(b, ns) \<in> set xs")
      case True
      then have "b \<in> set (keys_of xs)" by force
      note d = wf_sets_keys [OF w this, of host]
      have "swap_all host xs (swap_one host c ks) (sk host b) = swap_one host c ks (new_key host b)
          \<and> swap_all host xs (swap_one host c ks) (new_key host b) = None"
        using Cons.IH [OF _ True] w by (simp add: wf_sets_Cons)
      with d x show ?thesis by (simp add: swap_all_def swap_one_def)
    next
      case False
      with Cons.prems(2) x have bc: "c = b" by simp
      have "\<forall>d \<in> set (keys_of xs). sk host b \<noteq> sk host d \<and> sk host b \<noteq> new_key host d"
        "\<forall>d \<in> set (keys_of xs). new_key host b \<noteq> sk host d \<and> new_key host b \<noteq> new_key host d"
        using wf_sets_keys [OF w, of _ host] bc by blast+
      from other [OF this(1), of "swap_one host b ks"] other [OF this(2), of "swap_one host b ks"] x bc
      show ?thesis by (simp add: swap_all_def swap_one_def new_key_not_sk)
    qed
  qed simp
  then show "(b, ns) \<in> set sets \<Longrightarrow> swap_all host sets ks (sk host b) = ks (new_key host b)"
    "(b, ns) \<in> set sets \<Longrightarrow> swap_all host sets ks (new_key host b) = None" using assms by blast+
qed

lemma with_news_at:
  assumes "wf_sets sets"
  shows "(b, ns) \<in> set sets \<Longrightarrow> with_news host sets ks (new_key host b)
      = (if ns = [] then ks (new_key host b) else Some (RSet (set ns), None))"
    and "\<forall>c \<in> set (keys_of sets). k \<noteq> new_key host c \<Longrightarrow> with_news host sets ks k = ks k"
proof -
  have other: "with_news host xs ks k = ks k" if "\<forall>c \<in> set (keys_of xs). k \<noteq> new_key host c" for xs ks k
    using that unfolding with_news_def by (induction xs arbitrary: ks) (auto simp: with_new_def)
  then show "\<forall>c \<in> set (keys_of sets). k \<noteq> new_key host c \<Longrightarrow> with_news host sets ks k = ks k" .
  have "with_news host xs ks (new_key host b) = (if ns = [] then ks (new_key host b) else Some (RSet (set ns), None))"
    if "wf_sets xs" "(b, ns) \<in> set xs" for xs ks
    using that
  proof (induction xs arbitrary: ks)
    case (Cons x xs)
    obtain c ms where x: "x = (c, ms)" by (cases x)
    note w = Cons.prems(1) [unfolded x]
    show ?case
    proof (cases "(b, ns) \<in> set xs")
      case True
      then have "b \<in> set (keys_of xs)" by force
      note d = wf_sets_keys [OF w this, of host]
      have "with_news host xs (with_new host c ms ks) (new_key host b)
          = (if ns = [] then with_new host c ms ks (new_key host b) else Some (RSet (set ns), None))"
        using Cons.IH [OF _ True] w by (simp add: wf_sets_Cons)
      with d x show ?thesis by (simp add: with_news_def with_new_def)
    next
      case False
      with Cons.prems(2) x have bc: "c = b" "ms = ns" by simp_all
      have "\<forall>d \<in> set (keys_of xs). new_key host b \<noteq> new_key host d"
        using wf_sets_keys(2) [OF w, of _ host] bc by blast
      from other [OF this, of "with_new host b ns ks"] x bc
      show ?thesis by (simp add: with_news_def with_new_def)
    qed
  qed simp
  then show "(b, ns) \<in> set sets \<Longrightarrow> with_news host sets ks (new_key host b)
      = (if ns = [] then ks (new_key host b) else Some (RSet (set ns), None))" using assms by blast
qed

text \<open>The key space after the removals, the writes, the clean-up, the swaps and the sentinel.\<close>

definition stale_dropped :: "(string, string) gomap \<Rightarrow> configuration \<Rightarrow> keyspace \<Rightarrow> keyspace" where
  "stale_dropped kv conf ks =
     drop_stale kv ''udp'' (keys_of (services (UDP conf)))
       (drop_stale kv ''tcp'' (keys_of (services (TCP conf)))
         (drop_stale kv ''http'' (keys_of (services (HTTP conf))) ks))"

lemma stale_dropped_at:
  "stale_dropped kv conf ks k = (if map_of kv k = None \<and> k \<in> stale_keys conf then None else ks k)"
  by (auto simp: stale_dropped_def drop_stale_def drop_keys_def stale_keys_def)

lemma under_traefik: "k \<in> under setname N \<Longrightarrow> HasPrefix k ''traefik/''"
  by (auto simp: under_def k_path_eq prefix_def)

lemma stale_traefik: "k \<in> stale_keys conf \<Longrightarrow> HasPrefix k ''traefik/''"
  by (auto simp: stale_keys_def servers_prefix_def prefix_def)

lemma sk_not_traefik: "\<not> HasPrefix (sk host b) ''traefik/''" "\<not> HasPrefix (new_key host b) ''traefik/''"
  by (simp_all add: sk_def new_key_def)

lemma sentinel_distinct:
  assumes "wf_sets sets" and "b \<in> set (keys_of sets)"
  shows "sk host b \<noteq> sk host ''kop_last_update''" "new_key host b \<noteq> sk host ''kop_last_update''"
proof -
  have b: "CHR ''@'' \<notin> set b" "b \<noteq> ''kop_last_update''" using assms by (auto simp: wf_sets_def)
  have "CHR ''@'' \<notin> set ''kop_last_update''" by simp
  from sk_inj(1,3) [OF b(1) this] b(2)
  show "sk host b \<noteq> sk host ''kop_last_update''" "new_key host b \<noteq> sk host ''kop_last_update''" by auto
qed

text \<open>The temporary sets as the swap finds them.\<close>

lemma written_at_new:
  assumes "wf_sets sets" and "\<forall>b \<in> set (keys_of sets). ks (new_key host b) = None"
    and "\<forall>k \<in> set (keys_of kv). HasPrefix k ''traefik/''" and "\<forall>k \<in> U. HasPrefix k ''traefik/''"
    and "(b, ns) \<in> set sets"
  shows "stale_dropped kv conf (write_pairs now ttl kv (set (keys_of kv)) (drop_keys U (with_news host sets ks))) (new_key host b)
    = (if ns = [] then None else Some (RSet (set ns), None))"
proof -
  have "new_key host b \<notin> set (keys_of kv)" "new_key host b \<notin> U" "new_key host b \<notin> stale_keys conf"
    using assms(3,4) sk_not_traefik(2) [of host b] stale_traefik by auto
  moreover have "b \<in> set (keys_of sets)" using assms(5) by force
  then have "ks (new_key host b) = None" using assms(2) by blast
  ultimately show ?thesis using with_news_at(1) [OF assms(1,5), of host ks]
    by (simp add: stale_dropped_at write_pairs_def drop_keys_def)
qed

lemma publish_composition:
  assumes "wf_sets sets" and "\<forall>b \<in> set (keys_of sets). ks (new_key host b) = None"
    and "wf_map kv" and "\<forall>k \<in> set (keys_of kv). HasPrefix k ''traefik/''"
    and "\<forall>k \<in> U. HasPrefix k ''traefik/''"
  shows "publish host (expiry now ttl) stamp sets conf (map_of kv) U ks
    ((swap_all host sets (stale_dropped kv conf (write_pairs now ttl kv (set (keys_of kv))
        (drop_keys U (with_news host sets ks)))))
     (sk host ''kop_last_update'' \<mapsto> (RString stamp, expiry now ttl)))"
  (is "publish _ _ _ _ _ _ _ _ (?F(_ \<mapsto> _))")
proof -
  let ?A = "drop_keys U (with_news host sets ks)"
  let ?B = "stale_dropped kv conf (write_pairs now ttl kv (set (keys_of kv)) ?A)"
  note sent = sentinel_distinct [OF assms(1)]
  have 1: "\<forall>(b, names) \<in> set sets. (?F(sk host ''kop_last_update'' \<mapsto> (RString stamp, expiry now ttl))) (sk host b)
      = (if names = [] then None else Some (RSet (set names), None))
      \<and> (?F(sk host ''kop_last_update'' \<mapsto> (RString stamp, expiry now ttl))) (new_key host b) = None"
  proof (clarify)
    fix b names
    assume m: "(b, names) \<in> set sets"
    then have "b \<in> set (keys_of sets)" by force
    from sent [OF this] written_at_new [OF assms(1,2,4,5) m] swap_all_at(1,2) [OF assms(1) m, of host ?B]
    show "(?F(sk host ''kop_last_update'' \<mapsto> (RString stamp, expiry now ttl))) (sk host b)
      = (if names = [] then None else Some (RSet (set names), None))
      \<and> (?F(sk host ''kop_last_update'' \<mapsto> (RString stamp, expiry now ttl))) (new_key host b) = None"
      by simp
  qed
  have F: "?F k = ?B k" if "\<forall>b \<in> set (keys_of sets). k \<noteq> sk host b \<and> k \<noteq> new_key host b" for k
    using swap_all_at(3) [OF assms(1) that] .
  have 2: "(?F(sk host ''kop_last_update'' \<mapsto> (RString stamp, expiry now ttl))) k = Some (RString v, expiry now ttl)"
    if v: "map_of kv k = Some v" for k v
  proof -
    have k: "k \<in> set (keys_of kv)" using v by (metis map_of_eq_None_iff option.distinct(1) set_map)
    then have t: "HasPrefix k ''traefik/''" using assms(4) by blast
    then have "\<forall>b \<in> set (keys_of sets). k \<noteq> sk host b \<and> k \<noteq> new_key host b" "k \<noteq> sk host ''kop_last_update''"
      using sk_not_traefik by auto
    then show ?thesis using F [of k] v k
      by (simp add: stale_dropped_at write_pairs_def get_str_def)
  qed
  have 3: "(?F(sk host ''kop_last_update'' \<mapsto> (RString stamp, expiry now ttl))) k
      = (if k \<in> U \<union> stale_keys conf then None else ks k)"
    if "map_of kv k = None" "\<forall>b \<in> set (keys_of sets). k \<noteq> sk host b \<and> k \<noteq> new_key host b"
      "k \<noteq> sk host ''kop_last_update''" for k
  proof -
    have "k \<notin> set (keys_of kv)" using that(1) by (simp add: map_of_eq_None_iff)
    with that F [OF that(2)] with_news_at(2) [OF assms(1), of k host ks] show ?thesis
      by (simp add: stale_dropped_at write_pairs_def drop_keys_def)
  qed
  show ?thesis unfolding publish_def using 1 2 3 by (intro conjI) (simp, simp, blast, blast)
qed

text \<open>The eight tracked sets.\<close>

definition set_names :: "string list" where
  "set_names = [''http_middlewares'', ''http_routers'', ''http_services'', ''tcp_middlewares'',
     ''tcp_routers'', ''tcp_services'', ''udp_routers'', ''udp_services'']"

lemma tracked_names: "tracked conf = Some sets \<Longrightarrow> keys_of sets = set_names"
  by (auto simp: tracked_def set_names_def bind_eq_Some_conv)

definition set_prefix :: "string \<Rightarrow> string" where
  "set_prefix b = ''traefik/'' @ slashes b @ ''/''"

lemma under_set_prefix: "k \<in> under b N \<Longrightarrow> HasPrefix k (set_prefix b)"
  by (auto simp: under_def k_path_eq set_prefix_def prefix_def)

lemma set_names_apart:
  "list_all (\<lambda>b. list_all (\<lambda>c. b = c \<or> \<not> prefix (set_prefix b) (set_prefix c)) set_names) set_names"
  by code_simp

lemma separated_set_names: "separated (set set_names)"
  unfolding separated_def
proof (intro ballI impI allI)
  fix b c M N
  assume bc: "b \<in> set set_names" "c \<in> set set_names" "b \<noteq> c"
  show "under b M \<inter> under c N = {}"
  proof (rule ccontr)
    assume "\<not> ?thesis"
    then obtain k where "k \<in> under b M" "k \<in> under c N" by blast
    then have "prefix (set_prefix b) k" "prefix (set_prefix c) k" using under_set_prefix by auto
    then have "prefix (set_prefix b) (set_prefix c) \<or> prefix (set_prefix c) (set_prefix b)"
      using prefix_same_cases by blast
    with bc set_names_apart show False by (auto simp: list_all_iff)
  qed
qed

lemma wf_tracked:
  assumes "tracked conf = Some sets"
  shows "wf_sets sets" "separated (set (keys_of sets))" "distinct (keys_of sets)"
proof -
  have d: "distinct set_names" by code_simp
  have "list_all (\<lambda>b. CHR ''@'' \<notin> set b \<and> b \<noteq> ''kop_last_update'') set_names" by code_simp
  then have "\<forall>b \<in> set set_names. CHR ''@'' \<notin> set b \<and> b \<noteq> ''kop_last_update''" by (simp only: list_all_iff)
  with d show "wf_sets sets" by (simp only: wf_sets_def tracked_names [OF assms])
  show "separated (set (keys_of sets))" "distinct (keys_of sets)"
    using separated_set_names d by (simp_all only: tracked_names [OF assms])
qed

text \<open>
  The pairs of a configuration do not depend on the order in which the walk visits its maps, and
  lie below \<open>traefik/\<close>. (\<open>KV.ConfigToKV_reorder_same\<close> gives the first part for a reflection whose
  results for different seeds are reorderings of each other.)
\<close>

definition flattens :: "reflection \<Rightarrow> configuration \<Rightarrow> (string \<rightharpoonup> string) \<Rightarrow> bool" where
  "flattens reflect conf kv \<longleftrightarrow>
     (\<forall>seed. \<exists>m. ConfigToKV (reflect seed conf) = Inr m \<and> map_of m = kv)
     \<and> (\<forall>k. kv k \<noteq> None \<longrightarrow> HasPrefix k ''traefik/'')"

text \<open>Names that can be used in a glob pattern.\<close>

definition plain_services :: "configuration \<Rightarrow> bool" where
  "plain_services conf \<longleftrightarrow>
     (\<forall>n \<in> set (keys_of (services (HTTP conf))). glob_free (stripDocker n))
     \<and> (\<forall>n \<in> set (keys_of (services (TCP conf))). glob_free (stripDocker n))
     \<and> (\<forall>n \<in> set (keys_of (services (UDP conf))). glob_free (stripDocker n))"

lemma plain_prefix:
  "glob_free (stripDocker n) \<Longrightarrow> proto \<in> {''http'', ''tcp'', ''udp''} \<Longrightarrow> glob_free (servers_prefix proto n)"
  by (auto simp: servers_prefix_def glob_free_def)

definition trackable :: "string \<Rightarrow> keyspace \<Rightarrow> bool" where
  "trackable host ks = list_all (tracking_ok host ks) set_names"

text \<open>A name all of whose keys lie below other removed names, the reason why a removal stops.\<close>

definition unpurged :: "string \<Rightarrow> string set \<Rightarrow> string \<Rightarrow> keyspace \<Rightarrow> bool" where
  "unpurged setname N n ks \<longleftrightarrow> (\<forall>k. ks k \<noteq> None \<and> k \<in> under setname {n} \<longrightarrow> k \<in> under setname (N - {n}))"

lemma unpurged_insert:
  assumes "unpurged setname N m (drop_keys (under setname {n}) ks)" and "n \<noteq> m"
  shows "unpurged setname (insert n N) m ks"
  unfolding unpurged_def
proof (intro allI impI, elim conjE)
  fix k assume k: "ks k \<noteq> None" "k \<in> under setname {m}"
  show "k \<in> under setname (insert n N - {m})"
  proof (cases "k \<in> under setname {n}")
    case True
    with assms(2) show ?thesis by (auto simp: under_def)
  next
    case False
    with k assms(1) have "k \<in> under setname (N - {m})" by (simp add: unpurged_def drop_keys_def)
    then show ?thesis by (auto simp: under_def)
  qed
qed

text \<open>The key space after a renewal: the published keys and the sentinel have the whole TTL ahead.\<close>

definition renewed :: "int \<Rightarrow> (string \<rightharpoonup> string) \<Rightarrow> string \<Rightarrow> keyspace \<Rightarrow> keyspace" where
  "renewed e kv sent ks =
     (\<lambda>k. if kv k \<noteq> None \<or> k = sent then map_option (\<lambda>(v, _). (v, Some e)) (ks k) else ks k)"

lemma renew_keys_uniform:
  assumes "0 < ttl" and "\<forall>k. k \<in> set ks \<longleftrightarrow> kv k \<noteq> None"
  shows "renew_keys now (map (\<lambda>k. (k, ttl)) (ks @ [sent])) ks0 = renewed (now + ttl) kv sent ks0"
proof -
  have "map_of (map (\<lambda>k. (k, t)) xs) k = (if k \<in> set xs then Some t else None)" for t :: int and xs k
    by (induction xs) auto
  from this [of ttl "rev (ks @ [sent])"]
  have "map_of (rev (map (\<lambda>k. (k, ttl)) (ks @ [sent]))) k = (if k \<in> set (ks @ [sent]) then Some ttl else None)" for k
    by (simp add: rev_map)
  then show ?thesis unfolding renew_keys_def renewed_def using assms by (auto simp: expiry_def fun_eq_iff)
qed

context redis
begin

definition ok :: "'r RedisStore \<Rightarrow> bool" where
  "ok s \<longleftrightarrow> client s = cl \<and> up (server s)"

definition reach :: "'r RedisStore \<Rightarrow> 'r RedisStore \<Rightarrow> keyspace \<Rightarrow> bool" where
  "reach s s' ks \<longleftrightarrow> same_store s s' \<and> ok s' \<and> clock (server s') = clock (server s) \<and> db (server s') = ks"

lemma reach_refl: "ok s \<Longrightarrow> reach s s (db (server s))"
  by (simp add: reach_def)

lemma reach_trans: "reach s t ks \<Longrightarrow> reach t u ks' \<Longrightarrow> reach s u ks'"
  by (auto simp: reach_def intro: same_store_trans)

lemma reach_ok: "reach s t ks \<Longrightarrow> ok t \<and> db (server t) = ks"
  by (simp add: reach_def)

lemma call_reach:
  assumes "ok s" and "\<exists>r'. f cl (server s) = (x, r') \<and> up r' \<and> clock r' = clock (server s) \<and> db r' = ks"
  shows "\<exists>s'. call f s = (x, s') \<and> reach s s' ks"
  using assms by (auto simp: call_def ok_def reach_def same_store_def)

lemma any_order_reach:
  assumes "ok s"
  shows "\<exists>ys s'. any_order xs s = (ys, s') \<and> reach s s' (db (server s)) \<and> set ys = set xs"
  using assms by (auto simp: any_order_def reach_def ok_def same_store_def)

lemma Keys_prefix:
  assumes "ok s" and "glob_free p"
  shows "\<exists>ks s'. call (\<lambda>c. rc_Keys c (p @ ''*'')) s = (Inr ks, s') \<and> reach s s' (db (server s))
    \<and> set ks = {k. db (server s) k \<noteq> None \<and> HasPrefix k p}"
proof -
  have "up (server s)" using assms(1) by (simp add: ok_def)
  from Keys_law [OF this assms(2), of "[]"] obtain ks r where
    r: "rc_Keys cl (p @ ''*'') (server s) = (Inr ks, r)" "up r" "clock r = clock (server s)" "db r = db (server s)"
    "set ks = {k. db (server s) k \<noteq> None \<and> (\<exists>m. k = p @ m)}"
    by (auto simp: glob_free_def)
  from call_reach [OF assms(1), of "\<lambda>c. rc_Keys c (p @ ''*'')" "Inr ks" "db (server s)"] r
  show ?thesis by (auto simp: prefix_iff_append)
qed

lemma Unlink_reach:
  "ok s \<Longrightarrow> xs \<noteq> [] \<Longrightarrow>
     \<exists>s'. call (\<lambda>c. rc_Unlink c xs) s = (None, s') \<and> reach s s' (drop_keys (set xs) (db (server s)))"
  by (rule call_reach, assumption, rule Unlink_law) (simp_all add: ok_def)

lemma Set_reach:
  "ok s \<Longrightarrow> 0 \<le> d \<Longrightarrow> \<exists>s'. call (\<lambda>c. rc_Set c k v d) s = (None, s')
     \<and> reach s s' ((db (server s))(k \<mapsto> (RString v, expiry (clock (server s)) d)))"
  by (rule call_reach, assumption, rule Set_law) (simp_all add: ok_def)

lemma Unlink_none:
  assumes "ok s"
  shows "\<exists>e s'. call (\<lambda>c. rc_Unlink c []) s = (Some e, s') \<and> reach s s' (db (server s))"
proof -
  from Unlink_arity_law [of "server s"] assms obtain e r where
    "rc_Unlink cl [] (server s) = (Some e, r)" "up r" "clock r = clock (server s)" "db r = db (server s)"
    by (auto simp: ok_def)
  with call_reach [OF assms, of "\<lambda>c. rc_Unlink c []" "Some e" "db (server s)"] show ?thesis by blast
qed

text \<open>
  \<open>removeKeys\<close> removes the keys of the given names, up to the first name that has none: for that
  one the server refuses the command without arguments, and the loop ends.
\<close>

lemma removeKeys_reach:
  assumes "ok s" and "\<forall>n \<in> set xs. glob_free (k_path setname n)" and "distinct xs"
  shows "\<exists>e s' N. removeKeys setname xs s = (e, s') \<and> N \<subseteq> set xs
    \<and> reach s s' (drop_keys (under setname N) (db (server s)))
    \<and> (if e = None then N = set xs
       else \<exists>n \<in> set xs. unpurged setname (set xs) n (db (server s)))"
  using assms
proof (induction xs arbitrary: s)
  case Nil
  then show ?case using reach_refl by (auto simp: under_def)
next
  case (Cons n xs)
  let ?p = "k_path setname n @ ''/''"
  have "glob_free ?p" using Cons.prems(2) by (simp add: glob_free_def)
  from Keys_prefix [OF Cons.prems(1) this] obtain ks s1 where
    1: "call (\<lambda>c. rc_Keys c (k_path setname n @ ''/*'')) s = (Inr ks, s1)" "reach s s1 (db (server s))"
      "set ks = {k. db (server s) k \<noteq> None \<and> HasPrefix k ?p}" by auto
  note s1 = reach_ok [OF 1(2)]
  show ?case
  proof (cases "ks = []")
    case True
    from Unlink_none s1 obtain e s2 where
      2: "call (\<lambda>c. rc_Unlink c []) s1 = (Some e, s2)" "reach s1 s2 (db (server s1))" by blast
    then have "removeKeys setname (n # xs) s = (Some (''unlink failed: '' @ e), s2)" using 1 True by simp
    moreover have "reach s s2 (drop_keys (under setname {}) (db (server s)))"
      using reach_trans [OF 1(2)] 2(2) s1 by (simp add: under_def)
    moreover have "unpurged setname (set (n # xs)) n (db (server s))"
      using 1(3) True by (auto simp: under_def unpurged_def)
    ultimately show ?thesis
      by (intro exI [of _ "Some (''unlink failed: '' @ e)"] exI [of _ s2] exI [of _ "{}"])
         (simp del: removeKeys.simps)
  next
    case False
    from Unlink_reach s1 False obtain s2 where
      2: "call (\<lambda>c. rc_Unlink c ks) s1 = (None, s2)" "reach s1 s2 (drop_keys (set ks) (db (server s)))" by metis
    have d: "drop_keys (set ks) (db (server s)) = drop_keys (under setname {n}) (db (server s))"
      unfolding 1(3) drop_keys_def under_def
      by (rule ext, rename_tac k, case_tac "db (server s) k") auto
    note s2 = reach_ok [OF 2(2)]
    from Cons.IH [of s2] s2 Cons.prems(2,3) obtain e s3 N where
      3: "removeKeys setname xs s2 = (e, s3)" "N \<subseteq> set xs"
        "reach s2 s3 (drop_keys (under setname N) (db (server s2)))"
      and e: "if e = None then N = set xs else \<exists>m \<in> set xs. unpurged setname (set xs) m (db (server s2))" by auto
    have "drop_keys (under setname N) (db (server s2)) = drop_keys (under setname (insert n N)) (db (server s))"
      using s2 d by (simp add: drop_keys_drop flip: under_Un)
    then have r: "reach s s3 (drop_keys (under setname (insert n N)) (db (server s)))"
      using reach_trans [OF reach_trans [OF 1(2) 2(2)] 3(3)] by simp
    have "\<exists>m \<in> set (n # xs). unpurged setname (set (n # xs)) m (db (server s))" if "e \<noteq> None"
    proof -
      from that e obtain m where m: "m \<in> set xs" "unpurged setname (set xs) m (db (server s2))" by auto
      have "n \<noteq> m" using m(1) Cons.prems(3) by auto
      from unpurged_insert [OF m(2) [unfolded conjunct2 [OF s2] d] this] m(1) show ?thesis by auto
    qed
    with e have "if e = None then insert n N = set (n # xs) else \<exists>m \<in> set (n # xs). unpurged setname (set (n # xs)) m (db (server s))"
      by (auto split: if_splits)
    then show ?thesis using 1 2 3 r
      by (intro exI [of _ e] exI [of _ s3] exI [of _ "insert n N"]) auto
  qed
qed

text \<open>The names to remove, when no name is left and when some are.\<close>

lemma removeOldKeys_members:
  assumes "reach s s1 (db (server s))" and "any_order names s = (ns, s1)" and "set ns = set names"
    and "set_typed (db (server s)) (sk (Hostname s) b)"
    and "names = []"
  shows "\<exists>xs s2. removeOldKeys names b s = removeKeys b xs s2
    \<and> reach s s2 (with_new (Hostname s) b names (db (server s))) \<and> distinct xs
    \<and> set xs = old_names (Hostname s) b names (db (server s))"
proof -
  let ?h = "Hostname s" and ?ks = "db (server s)"
  let ?old = "old_names ?h b names ?ks" and ?ks1 = "with_new ?h b names ?ks"
  note s1 = reach_ok [OF assms(1)]
  have ns: "ns = [] \<longleftrightarrow> names = []" using assms(3) by (cases ns; cases names) auto
  have up1: "up (server s1)" using s1 by (simp add: ok_def)
  from SMembers_law [OF up1, of "sk ?h b"] s1 assms(4) obtain xs r where
    "rc_SMembers cl (sk ?h b) (server s1) = (Inr xs, r)" "up r" "clock r = clock (server s1)" "db r = ?ks"
    and xs: "distinct xs" "set xs = members ?ks (sk ?h b)" by auto
  then obtain s2 where 2: "call (\<lambda>c. rc_SMembers c (sk ?h b)) s1 = (Inr xs, s2)" "reach s1 s2 ?ks"
    using call_reach [of s1 "\<lambda>c. rc_SMembers c (sk ?h b)" "Inr xs" ?ks] s1 by blast
  have "reach s s2 ?ks1" using reach_trans [OF assms(1) 2(2)] assms(5) by (simp add: with_new_def)
  moreover have "removeOldKeys names b s = removeKeys b xs s2"
    using assms(2) 2 ns assms(5) by (simp add: removeOldKeys_def Let_def)
  ultimately show ?thesis using xs assms(5) by (auto simp: old_names_def)
qed

lemma removeOldKeys_difference:
  assumes "reach s s1 (db (server s))" and "any_order names s = (ns, s1)" and "set ns = set names"
    and "set_typed (db (server s)) (sk (Hostname s) b)"
    and "names \<noteq> []" and "db (server s) (new_key (Hostname s) b) = None" and "CHR ''@'' \<notin> set b"
  shows "\<exists>xs s2. removeOldKeys names b s = removeKeys b xs s2
    \<and> reach s s2 (with_new (Hostname s) b names (db (server s))) \<and> distinct xs
    \<and> set xs = old_names (Hostname s) b names (db (server s))"
proof -
  let ?h = "Hostname s" and ?ks = "db (server s)"
  let ?old = "old_names ?h b names ?ks" and ?ks1 = "with_new ?h b names ?ks"
  note s1 = reach_ok [OF assms(1)]
  have ns: "ns = [] \<longleftrightarrow> names = []" using assms(3) by (cases ns; cases names) auto
  have up1: "up (server s1)" using s1 by (simp add: ok_def)
  have "set_typed (db (server s1)) (new_key ?h b)" using assms(6) s1 by (simp add: set_typed_def)
  from SAdd_law [OF up1 this, of ns] ns assms(5) obtain s2 where
    2: "call (\<lambda>c. rc_SAdd c (new_key ?h b) ns) s1 = (None, s2)" "reach s1 s2 (add_members (new_key ?h b) ns (db (server s1)))"
    using call_reach [of s1 "\<lambda>c. rc_SAdd c (new_key ?h b) ns" None "add_members (new_key ?h b) ns (db (server s1))"] s1
    by auto
  have ks1: "add_members (new_key ?h b) ns (db (server s1)) = ?ks1"
    using s1 assms(6) assms(3) assms(5) by (simp add: add_members_def members_def with_new_def)
  note s2 = reach_ok [OF 2(2) [unfolded ks1]]
  have up2: "up (server s2)" using s2 by (simp add: ok_def)
  have m: "set_typed ?ks1 (sk ?h b)" "set_typed ?ks1 (new_key ?h b)"
    "members ?ks1 (sk ?h b) - members ?ks1 (new_key ?h b) = ?old"
    using assms(4) assms(5) sk_inj(4) [OF assms(7,7), of ?h] sk_inj(3) [OF assms(7,7), of ?h]
    by (simp_all add: with_new_def set_typed_def members_def old_names_def)
  from SDiff_law [OF up2, of "sk ?h b" "new_key ?h b"] s2 m obtain xs r where
    "rc_SDiff cl (sk ?h b) (new_key ?h b) (server s2) = (Inr xs, r)" "up r" "clock r = clock (server s2)" "db r = ?ks1"
    and xs: "distinct xs" "set xs = ?old" by auto
  then obtain s3 where 3: "call (\<lambda>c. rc_SDiff c (sk ?h b) (new_key ?h b)) s2 = (Inr xs, s3)" "reach s2 s3 ?ks1"
    using call_reach [of s2 "\<lambda>c. rc_SDiff c (sk ?h b) (new_key ?h b)" "Inr xs" ?ks1] s2 by blast
  have "reach s s3 ?ks1" using reach_trans [OF reach_trans [OF assms(1) 2(2)] 3(2)] .
  moreover have "removeOldKeys names b s = removeKeys b xs s3"
    using assms(2) 2(1) 3(1) ns assms(5) by (simp add: removeOldKeys_def Let_def new_key_def)
  ultimately show ?thesis using xs by blast
qed

lemma removeOldKeys_reach:
  assumes "ok s" and "set_typed (db (server s)) (sk (Hostname s) b)" and "db (server s) (new_key (Hostname s) b) = None"
    and "\<forall>n \<in> members (db (server s)) (sk (Hostname s) b). glob_free (k_path b n)"
    and "CHR ''@'' \<notin> set b"
  shows "\<exists>e s' N. removeOldKeys names b s = (e, s') \<and> N \<subseteq> old_names (Hostname s) b names (db (server s))
    \<and> reach s s' (drop_keys (under b N) (with_new (Hostname s) b names (db (server s))))
    \<and> (populated b (old_names (Hostname s) b names (db (server s))) (db (server s))
        \<longrightarrow> e = None \<and> N = old_names (Hostname s) b names (db (server s)))"
proof -
  let ?h = "Hostname s" and ?ks = "db (server s)"
  let ?old = "old_names ?h b names ?ks" and ?ks1 = "with_new ?h b names ?ks"
  from any_order_reach [OF assms(1), of names] obtain ns s1 where
    1: "any_order names s = (ns, s1)" "reach s s1 ?ks" "set ns = set names" by (elim exE conjE)
  have "\<exists>xs s2. removeOldKeys names b s = removeKeys b xs s2 \<and> reach s s2 ?ks1 \<and> distinct xs \<and> set xs = ?old"
    using removeOldKeys_members [OF 1(2,1,3) assms(2)] removeOldKeys_difference [OF 1(2,1,3) assms(2) _ assms(3,5)] by blast
  then obtain xs s2 where 2: "removeOldKeys names b s = removeKeys b xs s2" "reach s s2 ?ks1"
    and xs: "distinct xs" "set xs = ?old" by blast
  note s2 = reach_ok [OF 2(2)]
  have "\<forall>n \<in> set xs. glob_free (k_path b n)" using assms(4) xs by (simp add: old_names_def)
  from removeKeys_reach [OF conjunct1 [OF s2] this xs(1)] obtain e s3 N where
    3: "removeKeys b xs s2 = (e, s3)" "N \<subseteq> ?old" "reach s2 s3 (drop_keys (under b N) ?ks1)"
    and e: "if e = None then N = ?old else \<exists>n \<in> ?old. unpurged b ?old n ?ks1"
    unfolding conjunct2 [OF s2] xs(2) by (elim exE conjE)
  have "e = None \<and> N = ?old" if p: "populated b ?old ?ks"
  proof (rule ccontr)
    assume "\<not> ?thesis"
    with e obtain n where n: "n \<in> ?old" "\<And>k. ?ks1 k \<noteq> None \<Longrightarrow> k \<in> under b {n} \<Longrightarrow> k \<in> under b (?old - {n})"
      by (auto simp: unpurged_def split: if_splits)
    from p n(1) obtain k where k: "?ks k \<noteq> None" "k \<in> under b {n}" "k \<notin> under b (?old - {n})"
      unfolding populated_def by blast
    have "?ks1 k \<noteq> None" using k(1) by (auto simp: with_new_def)
    with n(2) k show False by blast
  qed
  then show ?thesis using 2 3 reach_trans [OF 2(2) 3(3)] by (intro exI [of _ e] exI [of _ s3] exI [of _ N]) simp
qed

lemma removeOldAll_reach:
  assumes "ok s" and "distinct (keys_of sets)" and "separated (set (keys_of sets))"
    and "\<forall>b \<in> set (keys_of sets). tracking_ok (Hostname s) (db (server s)) b"
  shows "\<exists>U. reach s (removeOldAll sets s) (drop_keys U (with_news (Hostname s) sets (db (server s))))
    \<and> U \<subseteq> old_keys (Hostname s) sets (db (server s))
    \<and> (all_populated (Hostname s) sets (db (server s)) \<longrightarrow> U = old_keys (Hostname s) sets (db (server s)))"
  using assms
proof (induction sets arbitrary: s)
  case Nil
  then show ?case using reach_refl by (intro exI [of _ "{}"]) (simp add: with_news_def old_keys_def)
next
  case (Cons x sets)
  obtain b names where x: "x = (b, names)" by (cases x)
  let ?h = "Hostname s" and ?ks = "db (server s)"
  have t: "tracking_ok ?h ?ks b" using Cons.prems(4) x by simp
  then have at: "CHR ''@'' \<notin> set b" by (simp add: tracking_ok_def)
  from t removeOldKeys_reach [OF Cons.prems(1), of b names] obtain e s1 N where
    1: "removeOldKeys names b s = (e, s1)" "N \<subseteq> old_names ?h b names ?ks" "reach s s1 (one_removed ?h b names N ?ks)"
      "populated b (old_names ?h b names ?ks) ?ks \<longrightarrow> N = old_names ?h b names ?ks"
    unfolding tracking_ok_def one_removed_def by blast
  note s1 = reach_ok [OF 1(3)]
  have h1: "Hostname s1 = ?h" using 1(3) by (simp add: reach_def same_store_def)
  have other: "CHR ''@'' \<notin> set c" "b \<noteq> c" if "c \<in> set (keys_of sets)" for c
    using Cons.prems(2,4) x that by (auto simp: tracking_ok_def)
  have tr: "\<forall>c \<in> set (keys_of sets). tracking_ok (Hostname s1) (db (server s1)) c"
  proof
    fix c
    assume c: "c \<in> set (keys_of sets)"
    then have "tracking_ok ?h ?ks c" using Cons.prems(4) x by auto
    with one_removed_other(4) [OF at other [OF c]] s1 h1 show "tracking_ok (Hostname s1) (db (server s1)) c" by simp
  qed
  have sep: "separated (set (keys_of sets))" using Cons.prems(3) by (auto simp: separated_def)
  from Cons.IH [OF _ _ sep tr] s1 Cons.prems(2) h1 obtain U where
    U: "reach s1 (removeOldAll sets s1) (drop_keys U (with_news ?h sets (one_removed ?h b names N ?ks)))"
      "U \<subseteq> old_keys ?h sets (one_removed ?h b names N ?ks)"
      "all_populated ?h sets (one_removed ?h b names N ?ks) \<longrightarrow> U = old_keys ?h sets (one_removed ?h b names N ?ks)"
    by auto
  have ok: "old_keys ?h sets (one_removed ?h b names N ?ks) = old_keys ?h sets ?ks"
    by (rule one_removed_rest(1) [OF at]) (use other in blast)
  have "drop_keys U (with_news ?h sets (one_removed ?h b names N ?ks))
      = drop_keys (under b N \<union> U) (with_news ?h (x # sets) ?ks)"
    using with_news_drop [of ?h "under b N" sets "with_new ?h b names ?ks"] x
    by (simp add: one_removed_def drop_keys_drop with_news_def Un_commute)
  with reach_trans [OF 1(3) U(1)] 1(1) x have r: "reach s (removeOldAll (x # sets) s)
      (drop_keys (under b N \<union> U) (with_news ?h (x # sets) ?ks))" by simp
  have sub: "under b N \<union> U \<subseteq> old_keys ?h (x # sets) ?ks"
    using 1(2) U(2) ok x by (auto simp: old_keys_def under_def)
  have "under b N \<union> U = old_keys ?h (x # sets) ?ks" if p: "all_populated ?h (x # sets) ?ks"
  proof -
    have "N = old_names ?h b names ?ks" using p 1(4) x by (simp add: all_populated_def)
    moreover have "all_populated ?h sets (one_removed ?h b names N ?ks)"
    proof (rule one_removed_rest(2) [OF at])
      show "all_populated ?h sets ?ks" using p by (simp add: all_populated_def)
      show "\<forall>(c, ns) \<in> set sets. under b N \<inter> under c (old_names ?h c ns ?ks) = {}"
        using Cons.prems(3) x other(2) by (force simp: separated_def)
    qed (use other in blast)
    ultimately show ?thesis using U(3) ok x by (auto simp: old_keys_def)
  qed
  with r sub show ?case by blast
qed

lemma write_keys_reach:
  assumes "ok s" and "0 \<le> TTL s"
  shows "\<exists>s'. write_keys kv ks s = (None, s')
    \<and> reach s s' (write_pairs (clock (server s)) (TTL s) kv (set ks) (db (server s)))"
  using assms
proof (induction ks arbitrary: s)
  case Nil
  then show ?case using reach_refl by (auto simp: write_pairs_def)
next
  case (Cons k ks)
  let ?e = "Some (RString (get_str kv k), expiry (clock (server s)) (TTL s))"
  from Set_reach [OF Cons.prems] obtain s1 where
    1: "call (\<lambda>c. rc_Set c k (get_str kv k) (TTL s)) s = (None, s1)" "reach s s1 ((db (server s))(k := ?e))" by blast
  then have s1: "ok s1" "TTL s1 = TTL s" "clock (server s1) = clock (server s)" "db (server s1) = (db (server s))(k := ?e)"
    by (simp_all add: reach_def same_store_def)
  from Cons.IH [OF s1(1), unfolded s1(2-4), OF Cons.prems(2)] obtain s2 where
    2: "write_keys kv ks s1 = (None, s2)"
      "reach s1 s2 (write_pairs (clock (server s)) (TTL s) kv (set ks) ((db (server s))(k := ?e)))" by blast
  have "write_pairs (clock (server s)) (TTL s) kv (set ks) ((db (server s))(k := ?e))
      = write_pairs (clock (server s)) (TTL s) kv (set (k # ks)) (db (server s))"
    by (auto simp: write_pairs_def)
  with 1 2 show ?case using reach_trans by (auto simp: Let_def)
qed

lemma unlink_stale_reach:
  "ok s \<Longrightarrow> reach s (unlink_stale kv ks s) (drop_keys {k \<in> set ks. map_of kv k = None} (db (server s)))"
proof (induction ks arbitrary: s)
  case Nil
  then show ?case using reach_refl by simp
next
  case (Cons k ks)
  show ?case
  proof (cases "map_of kv k")
    case None
    from Unlink_reach [OF Cons.prems, of "[k]"] obtain s1 where
      1: "call (\<lambda>c. rc_Unlink c [k]) s = (None, s1)" "reach s s1 (drop_keys {k} (db (server s)))" by auto
    note s1 = reach_ok [OF 1(2)]
    have "reach s1 (unlink_stale kv ks s1) (drop_keys ({k' \<in> set ks. map_of kv k' = None} \<union> {k}) (db (server s)))"
      using Cons.IH [of s1] s1 by (simp add: drop_keys_drop)
    moreover have "{k' \<in> set ks. map_of kv k' = None} \<union> {k} = {k' \<in> set (k # ks). map_of kv k' = None}"
      using None by auto
    ultimately show ?thesis using reach_trans [OF 1(2)] 1(1) None by simp
  next
    case (Some v)
    then have "{k' \<in> set (k # ks). map_of kv k' = None} = {k' \<in> set ks. map_of kv k' = None}" by auto
    with Cons Some show ?thesis by simp
  qed
qed

lemma stale_names_reach:
  assumes "ok s" and "\<forall>n \<in> set names. glob_free (servers_prefix proto n)"
  shows "reach s (stale_names kv proto names s) (drop_stale kv proto names (db (server s)))"
  using assms
proof (induction names arbitrary: s)
  case Nil
  then show ?case using reach_refl by (simp add: drop_stale_def)
next
  case (Cons n names)
  let ?p = "servers_prefix proto n"
  from Keys_prefix [OF Cons.prems(1), of ?p] Cons.prems(2) obtain ks s1 where
    1: "call (\<lambda>c. rc_Keys c (?p @ ''*'')) s = (Inr ks, s1)" "reach s s1 (db (server s))"
      "set ks = {k. db (server s) k \<noteq> None \<and> HasPrefix k ?p}" by auto
  note s1 = reach_ok [OF 1(2)]
  let ?s2 = "unlink_stale kv ks s1"
  have d: "drop_keys {k \<in> set ks. map_of kv k = None} (db (server s))
      = drop_keys {k. map_of kv k = None \<and> HasPrefix k ?p} (db (server s))"
    unfolding 1(3) drop_keys_def by (rule ext, rename_tac k, case_tac "db (server s) k") auto
  have 2: "reach s1 ?s2 (drop_keys {k. map_of kv k = None \<and> HasPrefix k ?p} (db (server s)))"
    using unlink_stale_reach [of s1 kv ks] s1 d by simp
  note s2 = reach_ok [OF 2]
  have "reach ?s2 (stale_names kv proto names ?s2) (drop_stale kv proto names (db (server ?s2)))"
    using Cons.IH [of ?s2] s2 Cons.prems(2) by auto
  moreover have "drop_stale kv proto names (db (server ?s2)) = drop_stale kv proto (n # names) (db (server s))"
    unfolding s2 [THEN conjunct2] drop_stale_def drop_keys_drop by (rule arg_cong [where f = "\<lambda>K. drop_keys K _"]) auto
  ultimately show ?case using 1(1) reach_trans [OF reach_trans [OF 1(2) 2]] by simp
qed

lemma removeStale_reach:
  assumes "ok s" and "\<forall>n \<in> set names. glob_free (servers_prefix proto n)"
  shows "reach s (removeStaleServerKeys kv names proto s) (drop_stale kv proto names (db (server s)))"
proof -
  from any_order_reach [OF assms(1), of names] obtain ns s1 where
    1: "any_order names s = (ns, s1)" "reach s s1 (db (server s))" "set ns = set names" by (elim exE conjE)
  note s1 = reach_ok [OF 1(2)]
  have "reach s1 (stale_names kv proto ns s1) (drop_stale kv proto ns (db (server s1)))"
    using assms(2) 1(3) s1 by (intro stale_names_reach) auto
  moreover have "drop_stale kv proto ns (db (server s1)) = drop_stale kv proto names (db (server s))"
    using 1(3) s1 by (simp add: drop_stale_def)
  ultimately show ?thesis using 1 reach_trans by (simp add: removeStaleServerKeys_def)
qed

lemma swapKeys_reach:
  assumes "ok s"
  shows "reach s (snd (swapKeys (sk (Hostname s) b) s)) (swap_one (Hostname s) b (db (server s)))"
proof -
  let ?h = "Hostname s" and ?ks = "db (server s)"
  have up: "up (server s)" using assms by (simp add: ok_def)
  show ?thesis
  proof (cases "?ks (new_key ?h b)")
    case None
    from Rename_missing_law [OF up None, of "sk ?h b"] obtain s1 where
      1: "call (\<lambda>c. rc_Rename c (new_key ?h b) (sk ?h b)) s = (Some no_such_key, s1)" "reach s s1 ?ks"
      using call_reach [OF assms, of "\<lambda>c. rc_Rename c (new_key ?h b) (sk ?h b)"] by blast
    from Unlink_reach [of s1 "[sk ?h b]"] reach_ok [OF 1(2)] obtain s2 where
      2: "call (\<lambda>c. rc_Unlink c [sk ?h b]) s1 = (None, s2)" "reach s1 s2 (drop_keys {sk ?h b} ?ks)" by auto
    have "drop_keys {sk ?h b} ?ks = swap_one ?h b ?ks"
      using None by (auto simp: drop_keys_def swap_one_def fun_eq_iff)
    then show ?thesis using reach_trans [OF 1(2) 2(2)] 1(1) 2(1) Contains_no_such_key
      by (simp add: swapKeys_def Let_def new_key_def)
  next
    case (Some v)
    then have "?ks (new_key ?h b) \<noteq> None" by simp
    from Rename_law [OF up this new_key_not_sk(1)] obtain s1 where
      1: "call (\<lambda>c. rc_Rename c (new_key ?h b) (sk ?h b)) s = (None, s1)"
        "reach s s1 (rename_key (new_key ?h b) (sk ?h b) ?ks)"
      using call_reach [OF assms, of "\<lambda>c. rc_Rename c (new_key ?h b) (sk ?h b)"] by blast
    have "rename_key (new_key ?h b) (sk ?h b) ?ks = swap_one ?h b ?ks"
      using new_key_not_sk [of ?h b] by (auto simp: rename_key_def swap_one_def fun_eq_iff)
    with 1 show ?thesis by (simp add: swapKeys_def new_key_def)
  qed
qed

lemma swapAll_reach:
  "ok s \<Longrightarrow> reach s (swapAll sets s) (swap_all (Hostname s) sets (db (server s)))"
proof (induction sets arbitrary: s)
  case Nil
  then show ?case using reach_refl by (simp add: swap_all_def)
next
  case (Cons x sets)
  obtain b ns where x: "x = (b, ns)" by (cases x)
  let ?s1 = "snd (swapKeys (sk (Hostname s) b) s)"
  note 1 = swapKeys_reach [OF Cons.prems, of b]
  then have "Hostname ?s1 = Hostname s" by (simp add: reach_def same_store_def)
  with Cons.IH [of ?s1] reach_ok [OF 1] x reach_trans [OF 1] show ?case by (simp add: swap_all_def)
qed

lemma store_pairs_reach:
  assumes "ok s" and "0 \<le> TTL s" and "plain_services conf"
  shows "\<exists>s' stamp. store_pairs sets conf kv s = (None, s'\<lparr>lastConfig := Some conf\<rparr>)
    \<and> reach s s' ((swap_all (Hostname s) sets (stale_dropped kv conf
        (write_pairs (clock (server s)) (TTL s) kv (set (keys_of kv)) (db (server s)))))
       (sk (Hostname s) ''kop_last_update'' \<mapsto> (RString stamp, expiry (clock (server s)) (TTL s))))"
proof -
  let ?h = "Hostname s" and ?c = "clock (server s)" and ?t = "TTL s"
  let ?kh = "keys_of (services (HTTP conf))" and ?kt = "keys_of (services (TCP conf))"
    and ?ku = "keys_of (services (UDP conf))"
  let ?w = "write_pairs ?c ?t kv (set (keys_of kv)) (db (server s))"
  obtain s1 where 1: "write_keys kv (sort (keys_of kv)) s = (None, s1)" "reach s s1 ?w"
    using write_keys_reach [OF assms(1,2), of kv "sort (keys_of kv)"] by auto
  let ?s2 = "removeStaleServerKeys kv ?kh ''http'' s1"
  let ?s3 = "removeStaleServerKeys kv ?kt ''tcp'' ?s2"
  let ?s4 = "removeStaleServerKeys kv ?ku ''udp'' ?s3"
  have g: "\<forall>n \<in> set ?kh. glob_free (servers_prefix ''http'' n)" "\<forall>n \<in> set ?kt. glob_free (servers_prefix ''tcp'' n)"
    "\<forall>n \<in> set ?ku. glob_free (servers_prefix ''udp'' n)"
    using assms(3) plain_prefix by (auto simp: plain_services_def)
  note r1 = reach_ok [OF 1(2)]
  have 2: "reach s1 ?s2 (drop_stale kv ''http'' ?kh ?w)" using removeStale_reach [OF _ g(1)] r1 by metis
  note r2 = reach_ok [OF 2]
  have 3: "reach ?s2 ?s3 (drop_stale kv ''tcp'' ?kt (drop_stale kv ''http'' ?kh ?w))"
    using removeStale_reach [OF _ g(2)] r2 by metis
  note r3 = reach_ok [OF 3]
  have 4: "reach ?s3 ?s4 (stale_dropped kv conf ?w)"
    unfolding stale_dropped_def using removeStale_reach [OF _ g(3)] r3 by metis
  have s4: "reach s ?s4 (stale_dropped kv conf ?w)"
    by (rule reach_trans [OF reach_trans [OF reach_trans [OF 1(2) 2] 3] 4])
  note r4 = reach_ok [OF s4]
  have h4: "Hostname ?s4 = ?h" using s4 by (simp add: reach_def same_store_def)
  let ?s5 = "swapAll sets ?s4"
  have "reach ?s4 ?s5 (swap_all ?h sets (stale_dropped kv conf ?w))"
    using swapAll_reach [of ?s4 sets] r4 h4 by simp
  then have s5: "reach s ?s5 (swap_all ?h sets (stale_dropped kv conf ?w))" using reach_trans [OF s4] by blast
  obtain now s6 where 6: "Unix_now ?s5 = (now, s6)" by fastforce
  have s6: "reach s s6 (swap_all ?h sets (stale_dropped kv conf ?w))"
    using s5 6 by (auto simp: Unix_now_def reach_def ok_def same_store_def)
  then have f6: "ok s6" "Hostname s6 = ?h" "TTL s6 = ?t" "clock (server s6) = ?c"
    "db (server s6) = swap_all ?h sets (stale_dropped kv conf ?w)" by (auto simp: reach_def same_store_def)
  obtain s7 where 7: "call (\<lambda>c. rc_Set c (sk ?h ''kop_last_update'') (FormatInt now) ?t) s6 = (None, s7)"
    "reach s6 s7 ((swap_all ?h sets (stale_dropped kv conf ?w))
       (sk ?h ''kop_last_update'' \<mapsto> (RString (FormatInt now), expiry ?c ?t)))"
    using Set_reach [OF f6(1) assms(2), of "sk ?h ''kop_last_update''" "FormatInt now"] f6 by auto
  have "store_pairs sets conf kv s = (None, s7\<lparr>lastConfig := Some conf\<rparr>)"
    using 1(1) 6 7(1) f6 by (simp add: store_pairs_def Let_def)
  with reach_trans [OF s6 7(2)] show ?thesis by blast
qed

lemma store_publishes:
  assumes "ok s" and "0 \<le> TTL s" and "tracked conf = Some sets" and "flattens reflect conf kv"
    and "plain_services conf" and "trackable (Hostname s) (db (server s))"
  shows "\<exists>s' stamp U. store reflect conf s = Some (None, s') \<and> ok s' \<and> clock (server s') = clock (server s)
    \<and> same_store (s\<lparr>lastConfig := Some conf\<rparr>) s'
    \<and> U \<subseteq> old_keys (Hostname s) sets (db (server s))
    \<and> (all_populated (Hostname s) sets (db (server s)) \<longrightarrow> U = old_keys (Hostname s) sets (db (server s)))
    \<and> publish (Hostname s) (expiry (clock (server s)) (TTL s)) stamp sets conf kv U (db (server s)) (db (server s'))"
proof -
  let ?h = "Hostname s" and ?ks = "db (server s)"
  note w = wf_tracked [OF assms(3)]
  have tr: "\<forall>b \<in> set (keys_of sets). tracking_ok ?h ?ks b"
    using assms(6) by (simp only: tracked_names [OF assms(3)] trackable_def list_all_iff)
  let ?s1 = "removeOldAll sets s"
  from removeOldAll_reach [OF assms(1) w(3,2) tr] obtain U where
    U: "reach s ?s1 (drop_keys U (with_news ?h sets ?ks))" "U \<subseteq> old_keys ?h sets ?ks"
      "all_populated ?h sets ?ks \<longrightarrow> U = old_keys ?h sets ?ks" by blast
  obtain kvr s2 where k: "walk_configuration reflect conf ?s1 = (kvr, s2)" by fastforce
  have s2: "reach s s2 (drop_keys U (with_news ?h sets ?ks))"
    using U(1) k by (auto simp: walk_configuration_def reach_def ok_def same_store_def)
  from k assms(4) obtain m where m: "kvr = Inr m" "map_of m = kv" "wf_map m"
    unfolding walk_configuration_def flattens_def
    by (metis ConfigToKV_Inr(2) Pair_inject)
  have f2: "ok s2" "Hostname s2 = ?h" "TTL s2 = TTL s" "clock (server s2) = clock (server s)"
    "db (server s2) = drop_keys U (with_news ?h sets ?ks)"
    using s2 by (auto simp: reach_def same_store_def)
  from store_pairs_reach [OF f2(1), of conf sets m] assms(2,5) f2 obtain s3 stamp where
    3: "store_pairs sets conf m s2 = (None, s3\<lparr>lastConfig := Some conf\<rparr>)"
      "reach s2 s3 ((swap_all ?h sets (stale_dropped m conf
        (write_pairs (clock (server s)) (TTL s) m (set (keys_of m)) (drop_keys U (with_news ?h sets ?ks)))))
       (sk ?h ''kop_last_update'' \<mapsto> (RString stamp, expiry (clock (server s)) (TTL s))))" by auto
  have new: "\<forall>b \<in> set (keys_of sets). ?ks (new_key ?h b) = None" using tr by (simp add: tracking_ok_def)
  have pk: "\<forall>k \<in> set (keys_of m). HasPrefix k ''traefik/''"
    using assms(4) m(2) unfolding flattens_def by (metis map_of_eq_None_iff set_map)
  have pu: "\<forall>k \<in> U. HasPrefix k ''traefik/''" using U(2) under_traefik by (fastforce simp: old_keys_def)
  note s3 = reach_trans [OF s2 3(2)]
  have "publish ?h (expiry (clock (server s)) (TTL s)) stamp sets conf kv U ?ks (db (server s3))"
    using publish_composition [OF w(1) new m(3) pk pu, of "clock (server s)" "TTL s" stamp conf] s3 m(2)
    by (simp add: reach_def)
  moreover have "store reflect conf s = Some (None, s3\<lparr>lastConfig := Some conf\<rparr>)"
    using assms(3) k m(1) 3(1) by (simp add: store_def Let_def)
  ultimately show ?thesis using s3 U(2,3)
    by (intro exI [of _ "s3\<lparr>lastConfig := Some conf\<rparr>"] exI [of _ stamp] exI [of _ U])
       (auto simp: reach_def ok_def same_store_def)
qed

lemma Renew_reach:
  assumes "ok s" and "0 < TTL s" and "\<forall>k. k \<in> set ks \<longleftrightarrow> kv k \<noteq> None"
  shows "\<exists>s'. call (\<lambda>c. rc_PExpireAll c (map (\<lambda>k. (k, TTL s)) (ks @ [sent]))) s
      = (Inr (map (\<lambda>k. db (server s) k \<noteq> None) (ks @ [sent])), s')
    \<and> reach s s' (renewed (clock (server s) + TTL s) kv sent (db (server s)))"
proof -
  let ?cmds = "map (\<lambda>k. (k, TTL s)) (ks @ [sent])"
  have "\<exists>r'. rc_PExpireAll cl ?cmds (server s) = (Inr (map (\<lambda>(k, _). db (server s) k \<noteq> None) ?cmds), r')
      \<and> up r' \<and> clock r' = clock (server s) \<and> db r' = renew_keys (clock (server s)) ?cmds (db (server s))"
    by (rule PExpire_law) (use assms(1,2) in \<open>auto simp: ok_def list_all_iff\<close>)
  from call_reach [OF assms(1), of "\<lambda>c. rc_PExpireAll c ?cmds", OF this]
  show ?thesis unfolding renew_keys_uniform [OF assms(2,3)] by (simp add: comp_def)
qed

text \<open>
  With the sentinel in place the keys are renewed; when one of them turns out to be missing, the
  configuration is stored again.
\<close>

lemma KeepConfAlive_checks:
  assumes "ok s" and "lastConfig s = Some conf" and "0 < TTL s" and "flattens reflect conf kv"
    and "db (server s) (sk (Hostname s) ''kop_last_update'') \<noteq> None"
  shows "\<exists>s'. reach s s' (renewed (clock (server s) + TTL s) kv (sk (Hostname s) ''kop_last_update'') (db (server s)))
    \<and> KeepConfAlive reflect s =
        (if \<forall>k. kv k \<noteq> None \<longrightarrow> db (server s) k \<noteq> None then Some (None, s') else store reflect conf s')"
proof -
  let ?sent = "sk (Hostname s) ''kop_last_update''" and ?ks = "db (server s)"
  have up: "up (server s)" using assms(1) by (simp add: ok_def)
  with Exists_law [OF up, of ?sent] assms(5) obtain s1 where
    1: "call (\<lambda>c. rc_Exists c ?sent) s = (Inr 1, s1)" "reach s s1 ?ks"
    using call_reach [OF assms(1), of "\<lambda>c. rc_Exists c ?sent" "Inr 1" ?ks] by auto
  obtain kvr s2 where 2: "walk_configuration reflect conf s1 = (kvr, s2)" by fastforce
  have s2: "reach s s2 ?ks"
    using 1(2) 2 by (auto simp: walk_configuration_def reach_def ok_def same_store_def)
  from 2 assms(4) obtain m where m: "kvr = Inr m" "map_of m = kv"
    unfolding walk_configuration_def flattens_def by (metis Pair_inject)
  from any_order_reach [of s2 "keys_of m"] s2 obtain ks s3 where
    3: "any_order (keys_of m) s2 = (ks, s3)" "reach s2 s3 (db (server s2))" "set ks = set (keys_of m)"
    by (auto simp: reach_def)
  have s3: "reach s s3 ?ks" using reach_trans [OF s2 3(2)] s2 by (simp add: reach_def)
  then have f3: "ok s3" "TTL s3 = TTL s" "clock (server s3) = clock (server s)" "db (server s3) = ?ks"
    by (auto simp: reach_def same_store_def)
  have kv: "\<forall>k. k \<in> set ks \<longleftrightarrow> kv k \<noteq> None" using 3(3) m(2) by (metis map_of_eq_None_iff set_map)
  from Renew_reach [OF f3(1), of ks kv ?sent] f3 assms(3) kv obtain s4 where
    4: "call (\<lambda>c. rc_PExpireAll c (map (\<lambda>k. (k, TTL s)) (ks @ [?sent]))) s3
        = (Inr (map (\<lambda>k. ?ks k \<noteq> None) (ks @ [?sent])), s4)"
      "reach s3 s4 (renewed (clock (server s) + TTL s) kv ?sent ?ks)" by auto
  have all: "list_all (\<lambda>b. b) (map (\<lambda>k. ?ks k \<noteq> None) (ks @ [?sent])) \<longleftrightarrow> (\<forall>k. kv k \<noteq> None \<longrightarrow> ?ks k \<noteq> None)"
    using assms(5) kv by (auto simp: list_all_iff)
  have t1: "TTL s1 = TTL s" "TTL s3 = TTL s" using 1(2) f3 by (auto simp: reach_def same_store_def)
  have "KeepConfAlive reflect s = (if list_all (\<lambda>b. b) (map (\<lambda>k. ?ks k \<noteq> None) (ks @ [?sent]))
      then Some (None, s4) else store reflect conf s4)"
    unfolding KeepConfAlive_def using assms(2,3) 1(1) 2 m(1) 3(1) 4(1) t1 by (simp add: Let_def)
  with reach_trans [OF s3 4(2)] show ?thesis unfolding all by blast
qed

lemma KeepConfAlive_renews:
  assumes "ok s" and "lastConfig s = Some conf" and "0 < TTL s" and "flattens reflect conf kv"
    and "\<forall>k. kv k \<noteq> None \<or> k = sk (Hostname s) ''kop_last_update'' \<longrightarrow> db (server s) k \<noteq> None"
  shows "\<exists>s'. KeepConfAlive reflect s = Some (None, s')
    \<and> reach s s' (renewed (clock (server s) + TTL s) kv (sk (Hostname s) ''kop_last_update'') (db (server s)))"
proof -
  from KeepConfAlive_checks [OF assms(1-4)] assms(5) obtain s' where
    "reach s s' (renewed (clock (server s) + TTL s) kv (sk (Hostname s) ''kop_last_update'') (db (server s)))"
    "KeepConfAlive reflect s = (if \<forall>k. kv k \<noteq> None \<longrightarrow> db (server s) k \<noteq> None then Some (None, s') else store reflect conf s')"
    by blast
  with assms(5) show ?thesis by auto
qed

text \<open>Without the sentinel the remembered configuration is stored again.\<close>

lemma KeepConfAlive_restores:
  assumes "ok s" and "lastConfig s = Some conf" and "db (server s) (sk (Hostname s) ''kop_last_update'') = None"
  shows "\<exists>s1. reach s s1 (db (server s)) \<and> KeepConfAlive reflect s = store reflect conf s1"
proof -
  let ?sent = "sk (Hostname s) ''kop_last_update''"
  have "up (server s)" using assms(1) by (simp add: ok_def)
  from Exists_law [OF this, of ?sent] obtain s1 where
    1: "call (\<lambda>c. rc_Exists c ?sent) s = (Inr 0, s1)" "reach s s1 (db (server s))"
    using call_reach [OF assms(1), of "\<lambda>c. rc_Exists c ?sent" "Inr 0" "db (server s)"] assms(3) by auto
  have "KeepConfAlive reflect s = store reflect conf s1"
    unfolding KeepConfAlive_def using assms(2) 1(1) by (simp add: Let_def)
  with 1(2) show ?thesis by blast
qed

text \<open>Reading values back.\<close>

lemma Get_reach:
  assumes "ok s" and "str_at (db (server s)) k = Some v"
  shows "\<exists>s'. Get k s = (Inr v, s') \<and> reach s s' (db (server s))"
proof -
  have "up (server s)" using assms(1) by (simp add: ok_def)
  from Get_string_law [OF this assms(2)] obtain s1 where
    "call (\<lambda>c. rc_Get c k) s = (Inr (Some v), s1)" "reach s s1 (db (server s))"
    using call_reach [OF assms(1), of "\<lambda>c. rc_Get c k" "Inr (Some v)" "db (server s)"] by blast
  then show ?thesis by (simp add: Get_def)
qed

lemma get_values_reach:
  assumes "ok s" and "\<forall>k \<in> set ks. str_at (db (server s)) k \<noteq> None"
  shows "\<exists>m s'. get_values ks vals s = (Inr m, s') \<and> reach s s' (db (server s))
    \<and> map_of m = (\<lambda>k. if k \<in> set ks then str_at (db (server s)) k else map_of vals k)"
  using assms
proof (induction ks arbitrary: s vals)
  case Nil
  then show ?case using reach_refl by auto
next
  case (Cons k ks)
  then obtain v where v: "str_at (db (server s)) k = Some v" by auto
  from Get_reach [OF Cons.prems(1) v] obtain s1 where
    1: "Get k s = (Inr v, s1)" "reach s s1 (db (server s))" by blast
  note s1 = reach_ok [OF 1(2)]
  have "\<forall>k \<in> set ks. str_at (db (server s1)) k \<noteq> None" using s1 Cons.prems(2) by simp
  from Cons.IH [OF conjunct1 [OF s1] this, of "AList.update k v vals"] obtain m s2 where
    2: "get_values ks (AList.update k v vals) s1 = (Inr m, s2)" "reach s1 s2 (db (server s))"
      "map_of m = (\<lambda>k'. if k' \<in> set ks then str_at (db (server s)) k' else map_of (AList.update k v vals) k')"
    unfolding conjunct2 [OF s1] by blast
  with v have "map_of m = (\<lambda>k'. if k' \<in> set (k # ks) then str_at (db (server s)) k' else map_of vals k')"
    by (auto simp: update_conv' fun_eq_iff)
  with 1 2 reach_trans [OF 1(2) 2(2)] show ?case by auto
qed

lemma Gets_reach:
  assumes "ok s" and "glob_free p" and "glob_free q"
    and "\<forall>k. (\<exists>m. k = p @ m @ q) \<longrightarrow> db (server s) k \<noteq> None \<longrightarrow> str_at (db (server s)) k \<noteq> None"
  shows "\<exists>m s'. Gets (p @ ''*'' @ q) s = (Inr m, s') \<and> reach s s' (db (server s))
    \<and> map_of m = (\<lambda>k. if \<exists>x. k = p @ x @ q then str_at (db (server s)) k else None)"
proof -
  have up: "up (server s)" using assms(1) by (simp add: ok_def)
  from Keys_law [OF up assms(2,3)] obtain ks s1 where
    1: "call (\<lambda>c. rc_Keys c (p @ ''*'' @ q)) s = (Inr ks, s1)" "reach s s1 (db (server s))"
      "set ks = {k. db (server s) k \<noteq> None \<and> (\<exists>m. k = p @ m @ q)}"
    using call_reach [OF assms(1), of "\<lambda>c. rc_Keys c (p @ ''*'' @ q)"] by blast
  note s1 = reach_ok [OF 1(2)]
  have none: "str_at (db (server s)) k = None" if "db (server s) k = None" for k
    using that by (simp add: str_at_def)
  have "\<forall>k \<in> set ks. str_at (db (server s1)) k \<noteq> None" using 1(3) assms(4) s1 by auto
  from get_values_reach [OF conjunct1 [OF s1] this, of "[]"] obtain m s2 where
    2: "get_values ks [] s1 = (Inr m, s2)" "reach s1 s2 (db (server s))"
      "map_of m = (\<lambda>k. if k \<in> set ks then str_at (db (server s)) k else None)"
    unfolding conjunct2 [OF s1] map_of.simps by blast
  have g: "Gets (p @ ''*'' @ q) s = get_values ks [] s1"
    using 1(1) by (cases ks) (simp_all add: Gets_def)
  have "map_of m = (\<lambda>k. if \<exists>x. k = p @ x @ q then str_at (db (server s)) k else None)"
    unfolding 2(3) 1(3) by (rule ext, rename_tac k, case_tac "db (server s) k") (auto simp: none)
  with g 2 reach_trans [OF 1(2) 2(2)] show ?thesis by auto
qed

end

end
