(* ===== verification/StoreProperties.thy ===== *)
theory StoreProperties
  imports Publish
begin

text \<open>
  The properties of the Redis store (\<^verbatim>\<open>store.go\<close>), on any server that obeys the laws of \<open>redis\<close>:
  publishing, purging, renewal, and the behaviours that differ from the intention. The witnesses
  run the store against the in-memory server.
\<close>

section \<open>The hypotheses of a store\<close>

text \<open>
  A reachable server, a sensible TTL, a configuration with all three sections whose pairs are \<open>kv\<close>,
  names without glob characters, and tracking sets that no earlier store left half-written.
\<close>

definition storable :: "('r \<Rightarrow> keyspace) \<Rightarrow> ('r \<Rightarrow> bool) \<Rightarrow> reflection \<Rightarrow> configuration
    \<Rightarrow> (string \<times> string list) list \<Rightarrow> (string \<rightharpoonup> string) \<Rightarrow> 'r RedisStore \<Rightarrow> bool" where
  "storable db up reflect conf sets kv s \<longleftrightarrow> up (server s) \<and> 0 \<le> TTL s \<and> tracked conf = Some sets
     \<and> flattens reflect conf kv \<and> plain_services conf \<and> trackable (Hostname s) (db (server s))"

lemma store_effect:
  assumes "redis (client s) db up clock" and "storable db up reflect conf sets kv s"
  obtains s' stamp U where "Store reflect conf s = Some (None, s')"
    and "up (server s')" and "clock (server s') = clock (server s)" and "same_store (s\<lparr>lastConfig := Some conf\<rparr>) s'"
    and "U \<subseteq> old_keys (Hostname s) sets (db (server s))"
    and "all_populated (Hostname s) sets (db (server s)) \<Longrightarrow> U = old_keys (Hostname s) sets (db (server s))"
    and "publish (Hostname s) (expiry (clock (server s)) (TTL s)) stamp sets conf kv U (db (server s)) (db (server s'))"
proof -
  have "redis.ok (client s) up s" using assms by (simp add: redis.ok_def storable_def)
  from redis.store_publishes [OF assms(1) this] assms(2)
  obtain s' stamp U where "store reflect conf s = Some (None, s')" "redis.ok (client s) up s'"
    "clock (server s') = clock (server s)" "same_store (s\<lparr>lastConfig := Some conf\<rparr>) s'"
    "U \<subseteq> old_keys (Hostname s) sets (db (server s))"
    "all_populated (Hostname s) sets (db (server s)) \<longrightarrow> U = old_keys (Hostname s) sets (db (server s))"
    "publish (Hostname s) (expiry (clock (server s)) (TTL s)) stamp sets conf kv U (db (server s)) (db (server s'))"
    unfolding storable_def by blast
  then show thesis using that redis.ok_def [OF assms(1)] by (auto simp: Store_def)
qed

section \<open>A sample store\<close>

text \<open>
  The layout of the fields that the samples use, as traefik tags them, and an in-memory server
  with the traces of an earlier configuration and of another host.
\<close>

definition struct :: "(string \<times> string \<times> gval) list \<Rightarrow> gval" where
  "struct fs = GStruct NoMarshaler (map (\<lambda>(n, j, v). (plain_field n (j @ '',omitempty'') [], v)) fs)"

definition reflect_section :: "nat \<Rightarrow> ('srv \<Rightarrow> gval) \<Rightarrow> 'srv proto \<Rightarrow> gval" where
  "reflect_section seed f p = struct
     [(''Routers'', ''routers'', GMap NoMarshaler None (Some (map (\<lambda>(n, r). (n, GPtr (map_option
         (\<lambda>r. struct [(''Service'', ''service'', GString NoMarshaler (rt_Service r))]) r))) (permute seed (Routers p))))),
      (''Services'', ''services'', GMap NoMarshaler None (Some (map (\<lambda>(n, s). (n, GPtr (map_option
         (\<lambda>s. struct [(''LoadBalancer'', ''loadBalancer'', GPtr (map_option (\<lambda>lb. struct
            [(''Servers'', ''servers'', GSlice NoMarshaler (Some (map f (lb_Servers lb))))]) (LoadBalancer s)))]) s)))
         (permute seed (Services p)))))]"

definition sample_reflect :: reflection where
  "sample_reflect seed conf = struct
     [(''HTTP'', ''http'', GPtr (map_option (reflect_section seed
         (\<lambda>s. struct [(''URL'', ''url'', GString NoMarshaler (srv_URL s))])) (HTTP conf))),
      (''TCP'', ''tcp'', GPtr (map_option (reflect_section seed
         (\<lambda>s. struct [(''Address'', ''address'', GString NoMarshaler (l4_Address s))])) (TCP conf))),
      (''UDP'', ''udp'', GPtr (map_option (reflect_section seed
         (\<lambda>s. struct [(''Address'', ''address'', GString NoMarshaler (l4_Address s))])) (UDP conf)))]"

definition sample_db :: "(string, mem_val \<times> int option) gomap" where
  "sample_db =
     [(''traefik_http_services@node1'', MSet [''old@docker'', ''web@docker''], None),
      (''traefik/http/services/old/loadBalancer/servers/0/url'', MString ''http://192.168.0.5:1'', None),
      (''traefik/http/services/web/loadBalancer/servers/1/url'', MString ''http://192.168.0.5:2'', None),
      (''traefik/http/services/web/loadBalancer/passHostHeader'', MString ''false'', None),
      (''traefik_http_services@node2'', MSet [''db@docker''], None)]"

definition sample_store :: "(string, mem_val \<times> int option) gomap \<Rightarrow> mem RedisStore" where
  "sample_store m = \<lparr>Hostname = ''node1'', TTL = 30 * second, lastConfig = None, client = mem_client,
     server = \<lparr>mem_db = m, mem_clock = 1000\<rparr>, unix_time = (\<lambda>_. 1700000000), order_seed = (\<lambda>_. 0), tick = 0\<rparr>"

definition web_pairs :: "(string, string) gomap" where
  "web_pairs = [(''traefik/http/routers/web/service'', ''web''),
     (''traefik/http/services/web/loadBalancer/servers/0/url'', ''http://172.17.0.2:80'')]"

definition web_sets :: "(string \<times> string list) list" where
  "web_sets = [(''http_middlewares'', []), (''http_routers'', [''web@docker'']), (''http_services'', [''web@docker'']),
     (''tcp_middlewares'', []), (''tcp_routers'', []), (''tcp_services'', []), (''udp_routers'', []), (''udp_services'', [])]"

lemma sample_reflect_web: "sample_reflect seed web_conf = sample_reflect 0 web_conf"
  by (simp add: sample_reflect_def reflect_section_def web_conf_def sample_configuration_def
      sample_section_def web_routers_def)

lemma web_flattens: "flattens sample_reflect web_conf (map_of web_pairs)"
proof -
  have kv: "ConfigToKV (sample_reflect 0 web_conf) = Inr web_pairs" by code_simp
  then have "ConfigToKV (sample_reflect seed web_conf) = Inr web_pairs" for seed
    by (simp only: sample_reflect_web [of seed])
  moreover have "list_all (\<lambda>k. HasPrefix k ''traefik/'') (keys_of web_pairs)" by code_simp
  then have "HasPrefix k ''traefik/''" if "map_of web_pairs k = Some v" for k v
    using map_of_SomeD [OF that] by (simp only: list_all_iff) force
  ultimately show ?thesis unfolding flattens_def by auto
qed

lemma sample_storable:
  "storable mem_keys (\<lambda>_. True) sample_reflect web_conf web_sets (map_of web_pairs) (sample_store sample_db)"
proof -
  have "tracked web_conf = Some web_sets" by code_simp
  moreover have "plain_services web_conf" by code_simp
  moreover have "trackable ''node1'' (mem_keys (server (sample_store sample_db)))" by code_simp
  ultimately show ?thesis using web_flattens by (simp add: storable_def sample_store_def second_def)
qed

lemma sample_redis: "redis (client (sample_store m)) mem_keys (\<lambda>_. True) mem_clock"
  using mem.redis_axioms by (simp add: sample_store_def)

section \<open>Publishing\<close>

text \<open>
  C2: \<open>Store\<close> implements the abstract specification \<open>publish\<close> on every server that obeys the laws: it
  succeeds, remembers the configuration, and leaves exactly the specified key space.
\<close>

theorem store_refines_publish:
  assumes "redis (client s) db up clock" and "storable db up reflect conf sets kv s"
  shows "\<exists>s' stamp U. Store reflect conf s = Some (None, s') \<and> lastConfig s' = Some conf
    \<and> U \<subseteq> old_keys (Hostname s) sets (db (server s))
    \<and> (all_populated (Hostname s) sets (db (server s)) \<longrightarrow> U = old_keys (Hostname s) sets (db (server s)))
    \<and> publish (Hostname s) (expiry (clock (server s)) (TTL s)) stamp sets conf kv U (db (server s)) (db (server s'))"
  by (rule store_effect [OF assms]) (auto simp: same_store_def)

theorem store_refines_publish_witness:
  "\<exists>s' stamp U. Store sample_reflect web_conf (sample_store sample_db) = Some (None, s') \<and> lastConfig s' = Some web_conf
    \<and> U \<subseteq> old_keys ''node1'' web_sets (mem_keys (server (sample_store sample_db)))
    \<and> (all_populated ''node1'' web_sets (mem_keys (server (sample_store sample_db)))
        \<longrightarrow> U = old_keys ''node1'' web_sets (mem_keys (server (sample_store sample_db))))
    \<and> publish ''node1'' (expiry 1000 (30 * second)) stamp web_sets web_conf (map_of web_pairs) U
        (mem_keys (server (sample_store sample_db))) (mem_keys (server s'))"
  using store_refines_publish [OF sample_redis sample_storable] by (simp add: sample_store_def)

text \<open>
  C13: after a successful \<open>Store\<close>, \<open>Get\<close> returns the published value for every published key.
\<close>

theorem store_then_Get:
  assumes "redis (client s) db up clock" and "storable db up reflect conf sets kv s" and "kv k = Some v"
  shows "\<exists>s'. Store reflect conf s = Some (None, s') \<and> fst (Get k s') = Inr v"
proof (rule store_effect [OF assms(1,2)])
  fix s' stamp U
  assume s': "Store reflect conf s = Some (None, s')" "up (server s')" "same_store (s\<lparr>lastConfig := Some conf\<rparr>) s'"
    and p: "publish (Hostname s) (expiry (clock (server s)) (TTL s)) stamp sets conf kv U (db (server s)) (db (server s'))"
  have "redis.ok (client s) up s'" using s' redis.ok_def [OF assms(1)] by (simp add: same_store_def)
  moreover have "str_at (db (server s')) k = Some v" using p assms(3) by (auto simp: publish_def str_at_def)
  ultimately show ?thesis using redis.Get_reach [OF assms(1)] s'(1) by (metis fst_conv)
qed

theorem store_then_Get_witness:
  "\<exists>s'. Store sample_reflect web_conf (sample_store sample_db) = Some (None, s')
     \<and> fst (Get ''traefik/http/services/web/loadBalancer/servers/0/url'' s') = Inr ''http://172.17.0.2:80''"
  by (rule store_then_Get [OF sample_redis sample_storable]) code_simp

section \<open>Purging\<close>


lemma sample_populated: "all_populated ''node1'' web_sets (mem_keys (server (sample_store sample_db)))"
proof -
  let ?ks = "mem_keys (server (sample_store sample_db))"
  have m: "map (\<lambda>(b, names). old_names ''node1'' b names ?ks) web_sets
      = [{}, {}, {''old@docker''}, {}, {}, {}, {}, {}]" by code_simp
  have "k_path ''http_services'' ''old@docker'' @ ''/'' = ''traefik/http/services/old/''"
    "?ks ''traefik/http/services/old/loadBalancer/servers/0/url'' \<noteq> None" by code_simp+
  then have "populated ''http_services'' {''old@docker''} ?ks"
    by (auto simp: populated_def under_def intro!: exI [of _ "''traefik/http/services/old/loadBalancer/servers/0/url''"])
  then show ?thesis using m by (simp add: all_populated_def web_sets_def populated_def)
qed


text \<open>
  C16: after a \<open>Store\<close> no key below the servers of a published service is left from earlier
  configurations: a service that went from two servers to one has only the keys of one.
\<close>

theorem store_drops_stale_servers:
  assumes "redis (client s) db up clock" and "storable db up reflect conf sets kv s"
    and "k \<in> stale_keys conf" and "kv k = None"
  shows "\<exists>s'. Store reflect conf s = Some (None, s') \<and> db (server s') k = None"
proof (rule store_effect [OF assms(1,2)])
  fix s' stamp U
  assume s': "Store reflect conf s = Some (None, s')"
    and p: "publish (Hostname s) (expiry (clock (server s)) (TTL s)) stamp sets conf kv U (db (server s)) (db (server s'))"
  have "\<forall>c. k \<noteq> sk (Hostname s) c \<and> k \<noteq> new_key (Hostname s) c"
    using stale_traefik [OF assms(3)] sk_not_traefik by blast
  with p assms(3,4) have "db (server s') k = None" by (simp add: publish_def)
  with s' show ?thesis by blast
qed

lemma web_stale_key: "''traefik/http/services/web/loadBalancer/servers/1/url'' \<in> stale_keys web_conf"
proof -
  have "''web@docker'' \<in> set (keys_of (services (HTTP web_conf)))"
    "HasPrefix ''traefik/http/services/web/loadBalancer/servers/1/url'' (servers_prefix ''http'' ''web@docker'')"
    by code_simp+
  then show ?thesis unfolding stale_keys_def by blast
qed

theorem store_drops_stale_servers_witness:
  "\<exists>s'. Store sample_reflect web_conf (sample_store sample_db) = Some (None, s')
     \<and> mem_keys (server s') ''traefik/http/services/web/loadBalancer/servers/1/url'' = None"
  by (rule store_drops_stale_servers [OF sample_redis sample_storable web_stale_key]) code_simp

text \<open>
  C17: what a \<open>Store\<close> leaves to the other hosts: their tracking sets, unless the names of the two hosts
  differ exactly by the suffix \<open>_new\<close>, and every configuration key that it does not publish itself
  and that is neither below a name that the host tracked and gave up nor below the servers of a
  service that it publishes.
\<close>

theorem store_spares_other_hosts:
  assumes "redis (client s) db up clock" and "storable db up reflect conf sets kv s"
    and "host \<noteq> Hostname s" and "host \<noteq> Hostname s @ ''_new''" and "Hostname s \<noteq> host @ ''_new''"
    and "CHR ''@'' \<notin> set b" and "k = sk host b \<or> k = sk host b @ ''_new''"
  shows "\<exists>s'. Store reflect conf s = Some (None, s') \<and> db (server s') k = db (server s) k
    \<and> (\<forall>j. HasPrefix j ''traefik/'' \<longrightarrow> kv j = None \<longrightarrow> j \<notin> old_keys (Hostname s) sets (db (server s)) \<longrightarrow>
         j \<notin> stale_keys conf \<longrightarrow> db (server s') j = db (server s) j)"
proof (rule store_effect [OF assms(1,2)])
  fix s' stamp U
  assume s': "Store reflect conf s = Some (None, s')" and U: "U \<subseteq> old_keys (Hostname s) sets (db (server s))"
    and p: "publish (Hostname s) (expiry (clock (server s)) (TTL s)) stamp sets conf kv U (db (server s)) (db (server s'))"
  have k: "\<not> HasPrefix k ''traefik/''" using assms(7) sk_not_traefik [of host b] by (auto simp: new_key_def)
  have "flattens reflect conf kv" using assms(2) by (simp add: storable_def)
  then have "kv k = None" using k by (auto simp: flattens_def)
  moreover have "k \<notin> U \<union> stale_keys conf"
    using k U under_traefik stale_traefik unfolding old_keys_def by fast
  moreover have "k \<noteq> sk (Hostname s) c \<and> k \<noteq> new_key (Hostname s) c" if c: "CHR ''@'' \<notin> set c" for c
  proof -
    obtain r where r: "k = ''traefik_'' @ b @ CHR ''@'' # r" "r = host \<or> r = host @ ''_new''"
      using assms(7) by (auto simp: sk_def)
    have eq: "r = r'" if "k = ''traefik_'' @ c @ CHR ''@'' # r'" for r'
      using at_split [of b "CHR ''@''" r c r'] r(1) that assms(6) c by simp
    have "sk (Hostname s) c = ''traefik_'' @ c @ CHR ''@'' # Hostname s"
      "new_key (Hostname s) c = ''traefik_'' @ c @ CHR ''@'' # Hostname s @ ''_new''"
      by (simp_all add: sk_def new_key_def)
    with eq [of "Hostname s"] eq [of "Hostname s @ ''_new''"] r(2) assms(3-5) show ?thesis
      by (metis append_same_eq)
  qed
  moreover have "tracked conf = Some sets" using assms(2) by (simp add: storable_def)
  then have "\<forall>c \<in> set (keys_of sets). CHR ''@'' \<notin> set c" using wf_tracked(1) by (simp add: wf_sets_def)
  ultimately have "db (server s') k = db (server s) k" using p by (simp add: publish_def)
  moreover have "db (server s') j = db (server s) j"
    if "HasPrefix j ''traefik/''" "kv j = None" "j \<notin> old_keys (Hostname s) sets (db (server s))" "j \<notin> stale_keys conf" for j
  proof -
    have "\<forall>c. j \<noteq> sk (Hostname s) c \<and> j \<noteq> new_key (Hostname s) c" using that(1) sk_not_traefik by blast
    moreover have "j \<notin> U" using U that(3) by blast
    ultimately show ?thesis using p that(2,4) by (simp add: publish_def)
  qed
  ultimately show ?thesis using s' by blast
qed

theorem store_spares_other_hosts_witness:
  "\<exists>s'. Store sample_reflect web_conf (sample_store sample_db) = Some (None, s')
     \<and> mem_keys (server s') ''traefik_http_services@node2''
         = mem_keys (server (sample_store sample_db)) ''traefik_http_services@node2''"
proof -
  have h: "''node2'' \<noteq> Hostname (sample_store sample_db)" "''node2'' \<noteq> Hostname (sample_store sample_db) @ ''_new''"
    "Hostname (sample_store sample_db) \<noteq> ''node2'' @ ''_new''" by code_simp+
  have k: "''traefik_http_services@node2'' = sk ''node2'' ''http_services''
      \<or> ''traefik_http_services@node2'' = sk ''node2'' ''http_services'' @ ''_new''" by code_simp
  have "CHR ''@'' \<notin> set ''http_services''" by simp
  from store_spares_other_hosts [OF sample_redis sample_storable h this k] show ?thesis by blast
qed

text \<open>
  C38: a key below a name that is still published, other than a server key, is never removed when the
  new configuration does not have it any more: an option deleted from a service stays in Redis.
\<close>

theorem store_keeps_deleted_options:
  assumes "redis (client s) db up clock" and "storable db up reflect conf sets kv s"
    and "(b, names) \<in> set sets" and "n \<in> set names" and "HasPrefix k (k_path b n @ ''/'')"
    and "k \<notin> old_keys (Hostname s) sets (db (server s))" and "k \<notin> stale_keys conf" and "kv k = None"
  shows "\<exists>s'. Store reflect conf s = Some (None, s') \<and> db (server s') k = db (server s) k"
proof (rule store_effect [OF assms(1,2)])
  fix s' stamp U
  assume s': "Store reflect conf s = Some (None, s')" and U: "U \<subseteq> old_keys (Hostname s) sets (db (server s))"
    and p: "publish (Hostname s) (expiry (clock (server s)) (TTL s)) stamp sets conf kv U (db (server s)) (db (server s'))"
  have "HasPrefix k ''traefik/''" using assms(5) under_traefik [of k b "{n}"] by (simp add: under_def)
  then have "\<forall>c. k \<noteq> sk (Hostname s) c \<and> k \<noteq> new_key (Hostname s) c" using sk_not_traefik by blast
  moreover have "k \<notin> U" using U assms(6) by blast
  ultimately have "db (server s') k = db (server s) k" using p assms(7,8) by (simp add: publish_def)
  with s' show ?thesis by blast
qed

theorem store_keeps_deleted_options_witness:
  "\<exists>s'. Store sample_reflect web_conf (sample_store sample_db) = Some (None, s')
     \<and> mem_keys (server s') ''traefik/http/services/web/loadBalancer/passHostHeader''
         = mem_keys (server (sample_store sample_db)) ''traefik/http/services/web/loadBalancer/passHostHeader''"
proof (rule store_keeps_deleted_options [OF sample_redis sample_storable, where b = "''http_services''"
      and names = "[''web@docker'']" and n = "''web@docker''"])
  let ?k = "''traefik/http/services/web/loadBalancer/passHostHeader''"
  let ?ks = "mem_keys (server (sample_store sample_db))"
  have m: "map (\<lambda>(b, names). old_names ''node1'' b names ?ks) web_sets
      = [{}, {}, {''old@docker''}, {}, {}, {}, {}, {}]" by code_simp
  have "\<not> HasPrefix ?k (k_path ''http_services'' ''old@docker'' @ ''/'')" by code_simp
  then have "?k \<notin> under ''http_services'' {''old@docker''}" by (simp add: under_def)
  with m show "?k \<notin> old_keys (Hostname (sample_store sample_db)) web_sets ?ks"
    by (simp add: old_keys_def web_sets_def under_def sample_store_def)
  have "keys_of (services (HTTP web_conf)) = [''web@docker'']" "keys_of (services (TCP web_conf)) = []"
    "keys_of (services (UDP web_conf)) = []" "\<not> HasPrefix ?k (servers_prefix ''http'' ''web@docker'')" by code_simp+
  then show "?k \<notin> stale_keys web_conf" by (simp add: stale_keys_def)
qed code_simp+


section \<open>Errors\<close>

text \<open>
  C23: whatever the server does, a \<open>Store\<close> that returns an error keeps the previously remembered
  configuration, and one that succeeds remembers the new one; nothing else of the store changes.
\<close>

theorem store_remembers_on_success:
  assumes "Store reflect conf s = Some (err, s')"
  shows "lastConfig s' = (if err = None then Some conf else lastConfig s)
    \<and> Hostname s' = Hostname s \<and> TTL s' = TTL s \<and> client s' = client s"
  using store_stored [OF assms [unfolded Store_def]]
  by (auto simp: stored_def same_store_def split: option.splits)

text \<open>A client whose write of one key fails.\<close>

definition failing_client :: "mem redis_client" where
  "failing_client = mem_client\<lparr>rc_Set := (\<lambda>k v d r. (Some ''connection refused'', r))\<rparr>"

theorem store_remembers_on_success_witness:
  "\<exists>e s'. Store sample_reflect web_conf (sample_store sample_db\<lparr>client := failing_client\<rparr>) = Some (Some e, s')
    \<and> lastConfig s' = None \<and> Hostname s' = ''node1'' \<and> TTL s' = 30 * second \<and> client s' = failing_client"
proof -
  let ?s = "sample_store sample_db\<lparr>client := failing_client\<rparr>"
  have "map_option (\<lambda>r. fst r \<noteq> None) (Store sample_reflect web_conf ?s) = Some True" by code_simp
  then obtain e s' where r: "Store sample_reflect web_conf ?s = Some (Some e, s')" by auto
  from store_remembers_on_success [OF r] r show ?thesis by (simp add: sample_store_def)
qed

section \<open>Keeping the configuration alive\<close>

text \<open>
  The life of a published configuration: time passes on the server, less than the TTL at a time,
  and keys whose expiry has come disappear; then \<open>KeepConfAlive\<close> runs.
\<close>

definition expired :: "int \<Rightarrow> keyspace \<Rightarrow> keyspace" where
  "expired now ks = (\<lambda>k. case ks k of Some (v, Some e) \<Rightarrow> if e \<le> now then None else ks k | _ \<Rightarrow> ks k)"

text \<open>The invariant: the pairs and the sentinel are there, with the whole TTL ahead.\<close>

definition alive :: "('r \<Rightarrow> keyspace) \<Rightarrow> ('r \<Rightarrow> bool) \<Rightarrow> ('r \<Rightarrow> int) \<Rightarrow> configuration \<Rightarrow> (string \<rightharpoonup> string)
    \<Rightarrow> 'r RedisStore \<Rightarrow> bool" where
  "alive db up clock conf kv t \<longleftrightarrow> up (server t) \<and> 0 < TTL t \<and> lastConfig t = Some conf
     \<and> (\<forall>k v. kv k = Some v \<longrightarrow> db (server t) k = Some (RString v, Some (clock (server t) + TTL t)))
     \<and> (\<exists>v. db (server t) (sk (Hostname t) ''kop_last_update'') = Some (v, Some (clock (server t) + TTL t)))"

lemma alive_renew:
  assumes "redis (client t) db up clock" and "flattens reflect conf kv" and "alive db up clock conf kv t"
    and "up r" and "clock r < clock (server t) + TTL t" and "db r = expired (clock r) (db (server t))"
  shows "\<exists>t'. KeepConfAlive reflect (t\<lparr>server := r\<rparr>) = Some (None, t')
    \<and> same_store t t' \<and> clock (server t') = clock r \<and> alive db up clock conf kv t'"
proof -
  let ?u = "t\<lparr>server := r\<rparr>" and ?sent = "sk (Hostname t) ''kop_last_update''"
  have a: "lastConfig t = Some conf" "0 < TTL t"
    "\<And>k v. kv k = Some v \<Longrightarrow> db (server t) k = Some (RString v, Some (clock (server t) + TTL t))"
    using assms(3) by (auto simp: alive_def)
  obtain sv where sent: "db (server t) ?sent = Some (sv, Some (clock (server t) + TTL t))"
    using assms(3) by (auto simp: alive_def)
  have live: "db r k = db (server t) k" if "db (server t) k = Some (v, Some (clock (server t) + TTL t))" for k v
    using that assms(5,6) by (simp add: expired_def)
  have kr: "db r k = Some (RString v, Some (clock (server t) + TTL t))" if "kv k = Some v" for k v
    using live [OF a(3) [OF that]] a(3) [OF that] by simp
  have sr: "db r ?sent = Some (sv, Some (clock (server t) + TTL t))" using live [OF sent] sent by simp
  have red: "redis (client ?u) db up clock" using assms(1) by simp
  have ok: "redis.ok (client ?u) up ?u" using redis.ok_def [OF red] assms(4) by simp
  have "\<forall>k. kv k \<noteq> None \<or> k = sk (Hostname ?u) ''kop_last_update'' \<longrightarrow> db (server ?u) k \<noteq> None"
    using kr sr by auto
  from redis.KeepConfAlive_renews [OF red ok _ _ assms(2) this] a(1,2) obtain t1 where
    t1: "KeepConfAlive reflect ?u = Some (None, t1)"
      "redis.reach (client ?u) db up clock ?u t1
        (renewed (clock (server ?u) + TTL ?u) kv (sk (Hostname ?u) ''kop_last_update'') (db (server ?u)))"
    by auto
  from t1(2) have f: "same_store ?u t1" "redis.ok (client t) up t1" "clock (server t1) = clock r"
    "db (server t1) = (\<lambda>k. if kv k \<noteq> None \<or> k = ?sent
        then map_option (\<lambda>(v, _). (v, Some (clock r + TTL t))) (db r k) else db r k)"
    using redis.reach_def [OF red] by (auto simp: renewed_def)
  have same: "Hostname t1 = Hostname t" "TTL t1 = TTL t" "lastConfig t1 = lastConfig t" "client t1 = client t"
    using f(1) by (simp_all add: same_store_def)
  have "up (server t1)" using f(2) redis.ok_def [OF assms(1)] by simp
  with same f(3,4) kr sr a have "alive db up clock conf kv t1" by (simp add: alive_def)
  with t1(1) f show ?thesis by (auto simp: same_store_def)
qed

lemma store_alive:
  assumes "redis (client s0) db up clock" and "storable db up reflect conf sets kv s0" and "0 < TTL s0"
    and "Store reflect conf s0 = Some (None, s)"
  shows "same_store (s0\<lparr>lastConfig := Some conf\<rparr>) s \<and> clock (server s) = clock (server s0) \<and> alive db up clock conf kv s"
  by (rule store_effect [OF assms(1,2)])
     (use assms(3,4) in \<open>auto simp: alive_def publish_def same_store_def expiry_def\<close>)

section \<open>Reading the servers of other nodes\<close>

text \<open>
  C24: \<open>Gets\<close> with the pattern of the merge returns exactly the stored values of the keys that match it:
  the URLs (or addresses) of all servers of the service, whichever node published them.
\<close>

theorem Gets_reads_servers:
  assumes "redis (client s) db up clock" and "up (server s)" and "glob_free p" and "glob_free q"
    and "storeKey svcType svcName = p @ ''*'' @ q"
    and "\<forall>x. db (server s) (p @ x @ q) \<noteq> None \<longrightarrow> str_at (db (server s)) (p @ x @ q) \<noteq> None"
  shows "\<exists>m s'. Gets (storeKey svcType svcName) s = (Inr m, s') \<and> db (server s') = db (server s)
    \<and> (\<forall>k. map_of m k = (if \<exists>x. k = p @ x @ q then str_at (db (server s)) k else None))"
proof -
  have "redis.ok (client s) up s" using assms(1,2) by (simp add: redis.ok_def)
  moreover have "\<forall>k. (\<exists>x. k = p @ x @ q) \<longrightarrow> db (server s) k \<noteq> None \<longrightarrow> str_at (db (server s)) k \<noteq> None"
    using assms(6) by auto
  ultimately obtain m s' where "Gets (p @ ''*'' @ q) s = (Inr m, s')"
    "redis.reach (client s) db up clock s s' (db (server s))"
    "map_of m = (\<lambda>k. if \<exists>x. k = p @ x @ q then str_at (db (server s)) k else None)"
    using redis.Gets_reach [OF assms(1) _ assms(3,4)] by blast
  then show ?thesis using assms(5) redis.reach_def [OF assms(1)] by auto
qed

theorem Gets_reads_servers_witness:
  "\<exists>m s'. Gets (storeKey ''http'' ''old@docker'') (sample_store sample_db) = (Inr m, s')
    \<and> mem_keys (server s') = mem_keys (server (sample_store sample_db))
    \<and> (\<forall>k. map_of m k = (if \<exists>x. k = ''traefik/http/services/old/loadBalancer/servers/'' @ x @ ''/url''
          then str_at (mem_keys (server (sample_store sample_db))) k else None))"
proof (rule Gets_reads_servers [OF sample_redis])
  let ?p = "''traefik/http/services/old/loadBalancer/servers/''"
  have "list_all (\<lambda>(k, v, _). HasPrefix k ?p \<longrightarrow> (case v of MString _ \<Rightarrow> True | _ \<Rightarrow> False)) sample_db" by code_simp
  then have str: "case v of MString _ \<Rightarrow> True | _ \<Rightarrow> False" if "(?p @ y, v, e) \<in> set sample_db" for y v e
    using that by (fastforce simp only: list_all_iff prefix_def case_prod_conv)
  show "\<forall>x. mem_keys (server (sample_store sample_db)) (?p @ x @ ''/url'') \<noteq> None \<longrightarrow>
      str_at (mem_keys (server (sample_store sample_db))) (?p @ x @ ''/url'') \<noteq> None"
  proof (intro allI impI)
    fix x
    assume "mem_keys (server (sample_store sample_db)) (?p @ x @ ''/url'') \<noteq> None"
    then obtain v e where v: "map_of sample_db (?p @ x @ ''/url'') = Some (v, e)"
      by (auto simp: mem_keys_def sample_store_def)
    from str [OF map_of_SomeD [OF v]] v
    show "str_at (mem_keys (server (sample_store sample_db))) (?p @ x @ ''/url'') \<noteq> None"
      by (cases v) (auto simp: mem_keys_def sample_store_def str_at_def)
  qed
qed (simp | code_simp)+

end
