(* ===== verification/Startup.thy ===== *)
theory Startup
  imports Store "HOL-Library.Word"
begin

text \<open>
  Configuration and startup: the command line of \<^verbatim>\<open>bin/traefik-kop/main.go\<close>, the settings of
  \<^verbatim>\<open>config.go\<close>, the TLS options of \<^verbatim>\<open>redis_tls.go\<close>, the constructor of the Redis store and
  \<open>newDockerProvider\<close>.

  Files, the YAML decoder, certificates, the network interfaces and the Redis dialler are arguments.
  \<open>log.Fatal\<close> ends the program: it is \<open>Inl\<close> with the message. Go's \<open>int\<close>, \<open>int64\<close> and durations are
  64-bit words; durations wrap around.
\<close>

section \<open>Settings\<close>

record RedisTLSConfig =
  tls_Enabled :: bool
  tls_CAFile :: string
  tls_CertFile :: string
  tls_KeyFile :: string
  tls_ServerName :: string
  tls_InsecureSkipVerify :: bool

record kop_config =
  DockerConfig :: string
  DockerHost :: string
  DockerPrefix :: string
  cfg_Hostname :: string
  BindIP :: string
  SkipReplace :: bool
  RedisAddr :: string
  RedisTTL :: "64 word"
  RedisUser :: string
  RedisPass :: string
  RedisDB :: "64 word"
  RedisTLS :: RedisTLSConfig
  RedisSentinelAddrs :: "string list"
  RedisSentinelMaster :: string
  PollInterval :: "64 word"
  Namespace :: "string list"

text \<open>The fields of traefik's \<open>docker.Provider\<close> that the program reads or writes, and its zero value.\<close>

record docker_provider =
  dp_Endpoint :: string
  dp_HTTPClientTimeout :: int
  dp_Watch :: bool
  dp_UseBindPortIP :: bool
  dp_ExposedByDefault :: bool
  dp_Network :: string

record files =
  os_Stat :: "string \<Rightarrow> string option"
  os_Open :: "string \<Rightarrow> string + string"
  os_ReadFile :: "string \<Rightarrow> string + string"
  yaml_Decode :: "string \<Rightarrow> string + docker_provider"

definition zero_provider :: docker_provider where
  "zero_provider = \<lparr>dp_Endpoint = [], dp_HTTPClientTimeout = 0, dp_Watch = False, dp_UseBindPortIP = False,
     dp_ExposedByDefault = False, dp_Network = []\<rparr>"

definition looksLikeFile :: "string \<Rightarrow> bool" where
  "looksLikeFile input =
     (if Contains input [CHR 0x0A] then False else Contains input ''.yaml'' \<or> Contains input ''.yml'')"

definition config_text :: "files \<Rightarrow> string \<Rightarrow> string + string" where
  "config_text fs input =
     (if looksLikeFile input then
        (case os_Stat fs input of
           Some err \<Rightarrow> Inl (''failed to stat docker config '' @ input @ '': '' @ err)
         | None \<Rightarrow>
             (case os_Open fs input of
                Inl err \<Rightarrow> Inl (''failed to open docker config '' @ input @ '': '' @ err)
              | Inr r \<Rightarrow> Inr r))
      else Inr input)"

definition loadDockerConfig :: "files \<Rightarrow> string \<Rightarrow> string + docker_provider option" where
  "loadDockerConfig fs input =
     (if input = [] then Inr None
      else case config_text fs input of
             Inl err \<Rightarrow> Inl err
           | Inr r \<Rightarrow>
               (case yaml_Decode fs r of
                  Inl err \<Rightarrow> Inl (''failed to load config: '' @ err)
                | Inr dp \<Rightarrow> Inr (Some (dp\<lparr>dp_Network := TrimSpace (dp_Network dp)\<rparr>))))"

definition defaultTimeout :: int where
  "defaultTimeout = 0"

definition newDockerProvider :: "files \<Rightarrow> kop_config \<Rightarrow> string + docker_provider" where
  "newDockerProvider fs config =
     (case loadDockerConfig fs (DockerConfig config) of
        Inl err \<Rightarrow> Inl (''failed to read docker config: '' @ err)
      | Inr dp \<Rightarrow>
          let dp = (case dp of None \<Rightarrow> zero_provider | Some dp \<Rightarrow> dp);
              dp = (if dp_Endpoint dp = [] then dp\<lparr>dp_Endpoint := DockerHost config\<rparr> else dp);
              dp = (if dp_HTTPClientTimeout dp \<noteq> 0 \<and> HasPrefix (dp_Endpoint dp) ''unix://''
                    then dp\<lparr>dp_HTTPClientTimeout := defaultTimeout\<rparr> else dp)
          in Inr (dp\<lparr>dp_Watch := True\<rparr>))"

section \<open>The docker client\<close>

datatype client_opt =
  WithHost string
| WithTimeout int
| WithHTTPHeaders "(string, string) gomap"
| WithAPIVersionNegotiation

definition getClientOpts :: "string \<Rightarrow> string + client_opt list" where
  "getClientOpts endpoint = Inr [WithHost endpoint, WithTimeout defaultTimeout]"

text \<open>\<open>NewClientWithOpts\<close> is the constructor of the docker package.\<close>

definition createDockerClient :: "string \<Rightarrow> (client_opt list \<Rightarrow> string + 'cl) \<Rightarrow> string \<Rightarrow> string + 'cl" where
  "createDockerClient Version NewClientWithOpts endpoint =
     (case getClientOpts endpoint of
        Inl err \<Rightarrow> Inl err
      | Inr opts \<Rightarrow>
          let httpHeaders = [(''User-Agent'', ''traefik-kop '' @ Version)];
              opts = opts @ [WithHTTPHeaders httpHeaders];
              opts = opts @ [WithAPIVersionNegotiation]
          in NewClientWithOpts opts)"

section \<open>TLS\<close>

record ('pool, 'cert) tls_config =
  MinVersion :: nat
  ServerName :: string
  InsecureSkipVerify :: bool
  RootCAs :: "'pool option"
  Certificates :: "'cert list"

definition VersionTLS12 :: nat where
  "VersionTLS12 = 0x0303"

record ('pool, 'cert) x509 =
  AppendCertsFromPEM :: "string \<Rightarrow> 'pool option"
  LoadX509KeyPair :: "string \<Rightarrow> string \<Rightarrow> string + 'cert"

definition with_roots :: "files \<Rightarrow> ('pool, 'cert) x509 \<Rightarrow> string \<Rightarrow> ('pool, 'cert) tls_config \<Rightarrow> string + ('pool, 'cert) tls_config" where
  "with_roots fs x file conf =
     (if file = [] then Inr conf
      else case os_ReadFile fs file of
             Inl err \<Rightarrow> Inl (''failed to read redis TLS CA file '' @ file @ '': '' @ err)
           | Inr pem \<Rightarrow>
               (case AppendCertsFromPEM x pem of
                  None \<Rightarrow> Inl (''no valid certificates found in redis TLS CA file '' @ file)
                | Some pool \<Rightarrow> Inr (conf\<lparr>RootCAs := Some pool\<rparr>)))"

definition with_certificate :: "('pool, 'cert) x509 \<Rightarrow> string \<Rightarrow> string \<Rightarrow> ('pool, 'cert) tls_config \<Rightarrow> string + ('pool, 'cert) tls_config" where
  "with_certificate x cert key conf =
     (if cert = [] then Inr conf
      else case LoadX509KeyPair x cert key of
             Inl err \<Rightarrow> Inl (''failed to load redis TLS client certificate/key: '' @ err)
           | Inr c \<Rightarrow> Inr (conf\<lparr>Certificates := [c]\<rparr>))"

definition Build :: "files \<Rightarrow> ('pool, 'cert) x509 \<Rightarrow> RedisTLSConfig \<Rightarrow> string + ('pool, 'cert) tls_config option" where
  "Build fs x c =
     (if \<not> tls_Enabled c then
        if tls_CAFile c \<noteq> [] \<or> tls_CertFile c \<noteq> [] \<or> tls_KeyFile c \<noteq> [] \<or> tls_ServerName c \<noteq> [] \<or> tls_InsecureSkipVerify c
        then Inl ''redis TLS options were set but --redis-tls is not enabled''
        else Inr None
      else if (tls_CertFile c = []) \<noteq> (tls_KeyFile c = [])
        then Inl ''--redis-tls-cert and --redis-tls-key must be provided together''
      else
        let conf = \<lparr>MinVersion = VersionTLS12, ServerName = tls_ServerName c,
              InsecureSkipVerify = tls_InsecureSkipVerify c, RootCAs = None, Certificates = []\<rparr>
        in case with_roots fs x (tls_CAFile c) conf of
             Inl err \<Rightarrow> Inl err
           | Inr conf \<Rightarrow>
               (case with_certificate x (tls_CertFile c) (tls_KeyFile c) conf of
                  Inl err \<Rightarrow> Inl err
                | Inr conf \<Rightarrow> Inr (Some conf)))"

section \<open>The Redis connection\<close>

text \<open>A number of seconds as a duration: the product of two 64-bit integers, which wraps around.\<close>

definition seconds :: "64 word \<Rightarrow> 64 word" where
  "seconds n = n * 1000000000"

datatype redis_endpoint = Sentinel string "string list" | Direct string

record 'tls redis_options =
  ro_Endpoint :: redis_endpoint
  ro_DisableIdentity :: bool
  ro_Username :: string
  ro_Password :: string
  ro_DB :: "64 word"
  ro_TLSConfig :: "'tls option"

definition redis_options_of :: "string \<Rightarrow> string \<Rightarrow> string \<Rightarrow> 64 word \<Rightarrow> string list \<Rightarrow> string \<Rightarrow> 'tls option \<Rightarrow> 'tls redis_options" where
  "redis_options_of addr user pass db sentinelAddrs sentinelMaster tlsConf =
     \<lparr>ro_Endpoint = (if sentinelAddrs \<noteq> [] \<and> sentinelMaster \<noteq> [] then Sentinel sentinelMaster sentinelAddrs else Direct addr),
      ro_DisableIdentity = True, ro_Username = user, ro_Password = pass, ro_DB = db, ro_TLSConfig = tlsConf\<rparr>"

text \<open>\<open>dial\<close> stands for the client package: the client and the server it talks to.\<close>

definition NewRedisStore :: "('tls redis_options \<Rightarrow> 'r redis_client \<times> 'r) \<Rightarrow> (nat \<Rightarrow> int) \<Rightarrow> (nat \<Rightarrow> nat)
    \<Rightarrow> string \<Rightarrow> string \<Rightarrow> 64 word \<Rightarrow> string \<Rightarrow> string \<Rightarrow> 64 word \<Rightarrow> string list \<Rightarrow> string \<Rightarrow> 'tls option \<Rightarrow> 'r RedisStore" where
  "NewRedisStore dial clock seed hostname addr ttl user pass db sentinelAddrs sentinelMaster tlsConf =
     (let (c, r) = dial (redis_options_of addr user pass db sentinelAddrs sentinelMaster tlsConf)
      in \<lparr>Hostname = hostname, TTL = sint (seconds ttl), lastConfig = None, client = c, server = r,
          unix_time = clock, order_seed = seed, tick = 0\<rparr>)"

section \<open>The bind address\<close>

type_synonym ip = "8 word list"

datatype net_addr = IPNet ip | IPAddr ip | OtherAddr

definition To4 :: "ip \<Rightarrow> ip option" where
  "To4 a =
     (if length a = 4 then Some a
      else if length a = 16 \<and> take 10 a = replicate 10 0 \<and> a ! 10 = 0xff \<and> a ! 11 = 0xff then Some (drop 12 a)
      else None)"

definition IsLoopback :: "ip \<Rightarrow> bool" where
  "IsLoopback a = (case To4 a of Some b \<Rightarrow> b ! 0 = 127 | None \<Rightarrow> a = replicate 15 0 @ [1])"

text \<open>The text of an IPv4 address.\<close>

definition dotted :: "ip \<Rightarrow> string" where
  "dotted a = Join (map (\<lambda>b. itoa_nat (unat b)) a) ''.''"

text \<open>
  The text of any address, as \<open>net.IP.String\<close> writes it: an IPv6 address in groups of hexadecimal digits
  with the first longest run of at least two zero groups left out.
\<close>

definition hex_digit :: "nat \<Rightarrow> char" where
  "hex_digit n = ''0123456789abcdef'' ! n"

fun hex_nat :: "nat \<Rightarrow> string" where
  "hex_nat n = (if n < 16 then [hex_digit n] else hex_nat (n div 16) @ [hex_digit (n mod 16)])"

declare hex_nat.simps [simp del]

fun groups :: "ip \<Rightarrow> nat list" where
  "groups (a # b # rest) = (256 * unat a + unat b) # groups rest"
| "groups _ = []"

fun longest_run :: "nat list \<Rightarrow> nat \<Rightarrow> nat \<times> nat \<Rightarrow> nat \<times> nat" where
  "longest_run [] i best = best"
| "longest_run (g # gs) i (st, en) =
     (let l = length (takeWhile (\<lambda>x. x = 0) (g # gs))
      in longest_run gs (Suc i) (if 2 \<le> l \<and> en - st < l then (i, i + l) else (st, en)))"

definition ipv6_text :: "nat list \<Rightarrow> string" where
  "ipv6_text gs =
     (let (st, en) = longest_run gs 0 (255, 255); text = (\<lambda>xs. Join (map hex_nat xs) '':'')
      in if st = 255 then text gs else text (take st gs) @ ''::'' @ text (drop en gs))"

definition IP_String :: "ip \<Rightarrow> string" where
  "IP_String a =
     (if a = [] then ''<nil>''
      else if length a \<noteq> 4 \<and> length a \<noteq> 16
        then ''?'' @ concat (map (\<lambda>b. [hex_digit (unat b div 16), hex_digit (unat b mod 16)]) a)
      else case To4 a of Some b \<Rightarrow> dotted b | None \<Rightarrow> ipv6_text (groups a))"

text \<open>The interfaces of the machine, and the local address of a connection or the error of \<open>net.Dial\<close>.\<close>

record network =
  InterfaceByName :: "string \<Rightarrow> string + (string + net_addr list)"
  net_Dial :: "string \<Rightarrow> string \<Rightarrow> string + ip"

definition addr_ip :: "net_addr \<Rightarrow> ip" where
  "addr_ip a = (case a of IPNet i \<Rightarrow> i | IPAddr i \<Rightarrow> i | OtherAddr \<Rightarrow> [])"

fun first_ipv4 :: "net_addr list \<Rightarrow> ip option" where
  "first_ipv4 [] = None"
| "first_ipv4 (a # addrs) =
     (let ip = addr_ip a
      in if ip = [] \<or> IsLoopback ip then first_ipv4 addrs
         else case To4 ip of None \<Rightarrow> first_ipv4 addrs | Some ip4 \<Rightarrow> Some ip4)"

definition GetInterfaceIP :: "network \<Rightarrow> string \<Rightarrow> ip option" where
  "GetInterfaceIP net name =
     (case InterfaceByName net name of
        Inl err \<Rightarrow> None
      | Inr addrs \<Rightarrow> (case addrs of Inl err \<Rightarrow> None | Inr addrs \<Rightarrow> first_ipv4 addrs))"

text \<open>The empty address is Go's nil.\<close>

definition GetOutboundIP :: "network \<Rightarrow> ip" where
  "GetOutboundIP net = (case net_Dial net ''udp'' ''8.8.8.8:80'' of Inl err \<Rightarrow> [] | Inr localIP \<Rightarrow> localIP)"

definition getDefaultIP :: "network \<Rightarrow> string \<Rightarrow> string" where
  "getDefaultIP net iface =
     (case (if TrimSpace iface \<noteq> [] then GetInterfaceIP net iface else None) of
        Some ip \<Rightarrow> IP_String ip
      | None \<Rightarrow> let ip = GetOutboundIP net in if ip = [] then [] else IP_String ip)"

definition getHostname :: "string + string \<Rightarrow> string" where
  "getHostname os_Hostname = (case os_Hostname of Inl err \<Rightarrow> ''traefik-kop'' | Inr h \<Rightarrow> h)"

section \<open>The command line\<close>

datatype flag_value = FString string | FBool bool | FInt "64 word" | FInt64 "64 word"

record flag =
  fl_Name :: string
  fl_Value :: flag_value
  fl_EnvVars :: "string list"

definition flag :: "string \<Rightarrow> flag_value \<Rightarrow> string list \<Rightarrow> flag" where
  "flag name v env = \<lparr>fl_Name = name, fl_Value = v, fl_EnvVars = env\<rparr>"

definition flags :: "string \<Rightarrow> flag list" where
  "flags hostname =
     [flag ''hostname'' (FString hostname) [''KOP_HOSTNAME''],
      flag ''bind-ip'' (FString []) [''BIND_IP''],
      flag ''bind-interface'' (FString []) [''BIND_INTERFACE''],
      flag ''skip-replace'' (FBool False) [''SKIP_REPLACE''],
      flag ''redis-addr'' (FString ''127.0.0.1:6379'') [''REDIS_ADDR''],
      flag ''redis-user'' (FString ''default'') [''REDIS_USER''],
      flag ''redis-pass'' (FString []) [''REDIS_PASS''],
      flag ''redis-db'' (FInt 0) [''REDIS_DB''],
      flag ''redis-ttl'' (FInt 0) [''REDIS_TTL''],
      flag ''redis-tls'' (FBool False) [''REDIS_TLS''],
      flag ''redis-tls-ca'' (FString []) [''REDIS_TLS_CA''],
      flag ''redis-tls-cert'' (FString []) [''REDIS_TLS_CERT''],
      flag ''redis-tls-key'' (FString []) [''REDIS_TLS_KEY''],
      flag ''redis-tls-server-name'' (FString []) [''REDIS_TLS_SERVER_NAME''],
      flag ''redis-tls-insecure-skip-verify'' (FBool False) [''REDIS_TLS_INSECURE_SKIP_VERIFY''],
      flag ''redis-sentinel-addrs'' (FString []) [''REDIS_SENTINEL_ADDRS''],
      flag ''redis-sentinel-master'' (FString []) [''REDIS_SENTINEL_MASTER''],
      flag ''docker-host'' (FString ''unix:///var/run/docker.sock'') [''DOCKER_ADDR'', ''DOCKER_HOST''],
      flag ''docker-config'' (FString []) [''DOCKER_CONFIG''],
      flag ''docker-prefix'' (FString []) [''DOCKER_PREFIX''],
      flag ''poll-interval'' (FInt64 60) [''KOP_POLL_INTERVAL''],
      flag ''namespace'' (FString []) [''NAMESPACE''],
      flag ''verbose'' (FBool False) [''VERBOSE'', ''DEBUG'']]"

text \<open>The variables that the linker sets, their defaults, and the text of \<^verbatim>\<open>--version\<close>.\<close>

record build_info =
  bi_version :: string
  bi_commit :: string
  bi_date :: string

definition build_defaults :: "build_info \<Rightarrow> build_info" where
  "build_defaults b =
     (let b = (if bi_version b = [] then b\<lparr>bi_version := ''n/a''\<rparr> else b);
          b = (if bi_commit b = [] then b\<lparr>bi_commit := ''head''\<rparr> else b)
      in if bi_date b = [] then b\<lparr>bi_date := ''n/a''\<rparr> else b)"

record cli_app =
  app_Name :: string
  app_Version :: string
  app_VersionFlag :: "string list"
  app_Flags :: "flag list"

definition app_of :: "build_info \<Rightarrow> string \<Rightarrow> cli_app" where
  "app_of b hostname = \<lparr>app_Name = ''traefik-kop'', app_Version = bi_version b, app_VersionFlag = [''version'', ''V''],
     app_Flags = flags hostname\<rparr>"

definition printVersion :: "build_info \<Rightarrow> cli_app \<Rightarrow> string" where
  "printVersion b app = app_Name app @ '' version '' @ app_Version app @ '' (commit: '' @ bi_commit b @ '', built ''
     @ bi_date b @ '')'' @ [CHR 0x0A]"

text \<open>The levels and the format of the two logging packages.\<close>

datatype log_level = DebugLevel | InfoLevel

record logging =
  logrus_level :: log_level
  zerolog_level :: log_level
  logger_level :: log_level
  text_DisableColors :: bool
  text_FullTimestamp :: bool
  text_DisableSorting :: bool

definition setupLogging :: "bool \<Rightarrow> logging" where
  "setupLogging debug =
     (let level = (if debug then DebugLevel else InfoLevel)
      in \<lparr>logrus_level = level, zerolog_level = level, logger_level = level,
          text_DisableColors = True, text_FullTimestamp = True, text_DisableSorting = True\<rparr>)"

text \<open>
  The command-line package: a flag has the value given on the command line, else that of its first
  environment variable that is set, else its default. \<open>cli_args\<close> holds the parsed arguments and
  \<open>cli_parse\<close> reads the text of a variable for a flag of the kind of the default. An undeclared name
  reads as the zero value.
\<close>

record cli_context =
  cli_args :: "string \<Rightarrow> flag_value option"
  cli_env :: "string \<Rightarrow> string option"
  cli_parse :: "flag_value \<Rightarrow> string \<Rightarrow> flag_value"
  cli_flags :: "flag list"

fun first_set :: "(string \<Rightarrow> string option) \<Rightarrow> string list \<Rightarrow> string option" where
  "first_set env [] = None"
| "first_set env (n # ns) = (case env n of Some v \<Rightarrow> Some v | None \<Rightarrow> first_set env ns)"

definition cli_value :: "cli_context \<Rightarrow> string \<Rightarrow> flag_value option" where
  "cli_value c name =
     (case find (\<lambda>f. fl_Name f = name) (cli_flags c) of
        None \<Rightarrow> None
      | Some f \<Rightarrow> Some (case cli_args c name of
            Some v \<Rightarrow> v
          | None \<Rightarrow> (case first_set (cli_env c) (fl_EnvVars f) of
                Some t \<Rightarrow> cli_parse c (fl_Value f) t | None \<Rightarrow> fl_Value f)))"

definition cli_String :: "cli_context \<Rightarrow> string \<Rightarrow> string" where
  "cli_String c name = (case cli_value c name of Some (FString v) \<Rightarrow> v | _ \<Rightarrow> [])"

definition cli_Bool :: "cli_context \<Rightarrow> string \<Rightarrow> bool" where
  "cli_Bool c name = (case cli_value c name of Some (FBool v) \<Rightarrow> v | _ \<Rightarrow> False)"

definition cli_Int :: "cli_context \<Rightarrow> string \<Rightarrow> 64 word" where
  "cli_Int c name = (case cli_value c name of Some (FInt v) \<Rightarrow> v | _ \<Rightarrow> 0)"

definition cli_Int64 :: "cli_context \<Rightarrow> string \<Rightarrow> 64 word" where
  "cli_Int64 c name = (case cli_value c name of Some (FInt64 v) \<Rightarrow> v | _ \<Rightarrow> 0)"

text \<open>The copy of \<open>splitStringArr\<close> in the main package.\<close>

definition main_splitStringArr :: "string \<Rightarrow> string list" where
  "main_splitStringArr str =
     (let trimmed = TrimSpace str
      in if trimmed \<noteq> [] then map TrimSpace (Split trimmed CHR '','') else [])"

definition config_of :: "network \<Rightarrow> cli_context \<Rightarrow> kop_config" where
  "config_of net c =
     (let namespaces = main_splitStringArr (cli_String c ''namespace'');
          bindIP = TrimSpace (cli_String c ''bind-ip'');
          bindIP = (if bindIP = [] then getDefaultIP net (TrimSpace (cli_String c ''bind-interface'')) else bindIP);
          sentinelAddrs = main_splitStringArr (cli_String c ''redis-sentinel-addrs'');
          redisTLS = \<lparr>tls_Enabled = cli_Bool c ''redis-tls'', tls_CAFile = cli_String c ''redis-tls-ca'',
            tls_CertFile = cli_String c ''redis-tls-cert'', tls_KeyFile = cli_String c ''redis-tls-key'',
            tls_ServerName = cli_String c ''redis-tls-server-name'',
            tls_InsecureSkipVerify = cli_Bool c ''redis-tls-insecure-skip-verify''\<rparr>
      in \<lparr>DockerConfig = cli_String c ''docker-config'', DockerHost = cli_String c ''docker-host'',
          DockerPrefix = cli_String c ''docker-prefix'', cfg_Hostname = cli_String c ''hostname'',
          BindIP = bindIP, SkipReplace = cli_Bool c ''skip-replace'', RedisAddr = cli_String c ''redis-addr'',
          RedisTTL = cli_Int c ''redis-ttl'', RedisUser = cli_String c ''redis-user'',
          RedisPass = cli_String c ''redis-pass'', RedisDB = cli_Int c ''redis-db'', RedisTLS = redisTLS,
          RedisSentinelAddrs = sentinelAddrs, RedisSentinelMaster = cli_String c ''redis-sentinel-master'',
          PollInterval = cli_Int64 c ''poll-interval'', Namespace = namespaces\<rparr>)"

text \<open>\<open>Inl\<close>: the program ends with the message. \<open>os.Getenv\<close> of an unset variable is empty.\<close>

definition doStart :: "network \<Rightarrow> cli_context \<Rightarrow> string + logging \<times> kop_config" where
  "doStart net c =
     (let config = config_of net c;
          env = (case cli_env c ''DOCKER_HOST'' of None \<Rightarrow> [] | Some v \<Rightarrow> v)
      in if BindIP config = [] then Inl ''Bind IP cannot be empty''
         else if RedisSentinelAddrs config \<noteq> [] \<and> RedisSentinelMaster config = []
           then Inl ''--redis-sentinel-master is required when using --redis-sentinel-addrs''
         else if RedisSentinelMaster config \<noteq> [] \<and> RedisSentinelAddrs config = []
           then Inl ''--redis-sentinel-addrs is required when using --redis-sentinel-master''
         else if env \<noteq> [] \<and> DockerPrefix config \<noteq> []
           then Inl ''Using the DOCKER_HOST env var with the DOCKER PREFIX feature is not allowed; use DOCKER_ADDR to set the Docker endpoint instead''
         else Inr (setupLogging (cli_Bool c ''verbose''), config))"

section \<open>Durations\<close>

lemma sint_small:
  assumes "- (2 ^ 63) \<le> i" and "i < 2 ^ 63"
  shows "sint (word_of_int i :: 64 word) = i"
  using assms by (simp add: sint_sbintrunc' signed_take_bit_int_eq_self)

lemma sint_seconds:
  assumes "0 \<le> sint n" and "sint n \<le> 9223372036"
  shows "sint (seconds n) = sint n * 1000000000"
proof -
  have "seconds n = word_of_int (sint n * 1000000000)"
    by (simp add: seconds_def)
  then show ?thesis using assms sint_small [of "sint n * 1000000000"] by simp
qed

text \<open>The truncating division of Go.\<close>

definition quot :: "64 word \<Rightarrow> int \<Rightarrow> 64 word" where
  "quot d k = word_of_int (sgn (sint d) * (\<bar>sint d\<bar> div k))"

lemma sint_quot:
  assumes "0 \<le> sint d" and "0 < k"
  shows "sint (quot d k) = sint d div k"
proof -
  have "sint d < 2 ^ 63" using sint_lt [of d] by simp
  moreover have "sint d div k \<le> sint d" using assms zdiv_mono2 [of "sint d" 1 k] by simp
  moreover have "quot d k = word_of_int (sint d div k)"
    using assms by (cases "sint d = 0") (simp_all add: quot_def)
  ultimately show ?thesis
    using assms sint_small [of "sint d div k"] pos_imp_zdiv_nonneg_iff [of k "sint d"] by simp
qed

section \<open>Properties\<close>

text \<open>
  C20: TLS is off only when it is not enabled and no TLS option is set; when it is on, the version is at
  least 1.2, verification is skipped only on request, a CA file and a client certificate are used
  exactly when they are configured. Everything else is an error: an option without TLS, half a key
  pair, an unreadable or empty CA file, a key pair that does not load.
\<close>

theorem Build_cases:
  "case Build fs x c of
     Inr None \<Rightarrow> c = \<lparr>tls_Enabled = False, tls_CAFile = [], tls_CertFile = [], tls_KeyFile = [], tls_ServerName = [],
                   tls_InsecureSkipVerify = False\<rparr>
   | Inr (Some t) \<Rightarrow> tls_Enabled c \<and> MinVersion t = 0x0303 \<and> ServerName t = tls_ServerName c
       \<and> InsecureSkipVerify t = tls_InsecureSkipVerify c \<and> ((tls_CertFile c = []) = (tls_KeyFile c = []))
       \<and> RootCAs t = (if tls_CAFile c = [] then None
           else case os_ReadFile fs (tls_CAFile c) of Inl _ \<Rightarrow> None | Inr pem \<Rightarrow> AppendCertsFromPEM x pem)
       \<and> (RootCAs t = None) = (tls_CAFile c = [])
       \<and> Inr (Certificates t) = (if tls_CertFile c = [] then Inr []
           else map_sum id (\<lambda>k. [k]) (LoadX509KeyPair x (tls_CertFile c) (tls_KeyFile c)))
   | Inl _ \<Rightarrow> if tls_Enabled c
       then (tls_CertFile c = []) \<noteq> (tls_KeyFile c = [])
         \<or> (tls_CAFile c \<noteq> [] \<and> (case os_ReadFile fs (tls_CAFile c) of Inl _ \<Rightarrow> True | Inr pem \<Rightarrow> AppendCertsFromPEM x pem = None))
         \<or> (tls_CertFile c \<noteq> [] \<and> isl (LoadX509KeyPair x (tls_CertFile c) (tls_KeyFile c)))
       else tls_CAFile c \<noteq> [] \<or> tls_CertFile c \<noteq> [] \<or> tls_KeyFile c \<noteq> [] \<or> tls_ServerName c \<noteq> [] \<or> tls_InsecureSkipVerify c"
  by (cases c) (auto simp: Build_def with_roots_def with_certificate_def VersionTLS12_def Let_def split: sum.splits option.splits)

definition pem_files :: files where
  "pem_files = \<lparr>os_Stat = (\<lambda>_. None), os_Open = (\<lambda>_. Inr []), os_ReadFile = (\<lambda>_. Inr ''PEM''), yaml_Decode = (\<lambda>_. Inr zero_provider)\<rparr>"

definition pem_x509 :: "(string, string) x509" where
  "pem_x509 = \<lparr>AppendCertsFromPEM = (\<lambda>pem. Some pem), LoadX509KeyPair = (\<lambda>cert key. Inr (cert @ '':'' @ key))\<rparr>"

definition mutual_tls :: RedisTLSConfig where
  "mutual_tls = \<lparr>tls_Enabled = True, tls_CAFile = ''ca.pem'', tls_CertFile = ''c.pem'', tls_KeyFile = ''k.pem'',
     tls_ServerName = ''redis'', tls_InsecureSkipVerify = False\<rparr>"

theorem Build_cases_witness:
  "\<exists>t. Build pem_files pem_x509 mutual_tls = Inr (Some t) \<and> MinVersion t = 0x0303 \<and> RootCAs t = Some ''PEM''
     \<and> Certificates t = [''c.pem:k.pem''] \<and> \<not> InsecureSkipVerify t"
proof -
  obtain t where t: "Build pem_files pem_x509 mutual_tls = Inr (Some t)"
    by (simp add: Build_def with_roots_def with_certificate_def pem_files_def pem_x509_def mutual_tls_def Let_def)
  with Build_cases [where fs = pem_files and x = pem_x509 and c = mutual_tls] show ?thesis
    by (auto simp: pem_files_def pem_x509_def mutual_tls_def)
qed

text \<open>The address of an interface: the first one that is an IPv4 address and no loopback address.\<close>

definition interface_address :: "network \<Rightarrow> string \<Rightarrow> ip option" where
  "interface_address net name =
     (case InterfaceByName net name of
        Inr (Inr addrs) \<Rightarrow> Option.bind (find (\<lambda>a. To4 a \<noteq> None \<and> \<not> IsLoopback a) (map addr_ip addrs)) To4
      | _ \<Rightarrow> None)"

lemma first_ipv4_find:
  "first_ipv4 addrs = Option.bind (find (\<lambda>a. To4 a \<noteq> None \<and> \<not> IsLoopback a) (map addr_ip addrs)) To4"
proof (induction addrs)
  case (Cons a addrs)
  have "To4 [] = None" by (simp add: To4_def)
  with Cons show ?case by (auto simp: Let_def split: option.splits)
qed simp

lemma GetInterfaceIP_eq: "GetInterfaceIP net name = interface_address net name"
  by (simp add: GetInterfaceIP_def interface_address_def first_ipv4_find split: sum.splits)

lemma To4_length: "To4 a = Some b \<Longrightarrow> length b = 4"
  by (auto simp: To4_def split: if_splits)

lemma IP_String_ipv4: "length b = 4 \<Longrightarrow> IP_String b = dotted b"
  by (auto simp: IP_String_def To4_def)

lemma interface_address_text: "interface_address net name = Some a \<Longrightarrow> IP_String a = dotted a"
  by (auto simp: interface_address_def bind_eq_Some_conv intro!: IP_String_ipv4 dest: To4_length split: sum.splits)

text \<open>
  C21: a configuration that passes the checks of \<open>doStart\<close> has a bind address: the one given, else that
  of the given interface if it has one, else the outbound address. Its store talks to the sentinels
  exactly when sentinel addresses are set, and then there is a master name; a label prefix excludes
  a \<open>DOCKER_HOST\<close> variable.
\<close>

theorem doStart_checked:
  assumes "doStart net c = Inr (levels, config)"
  shows "BindIP config \<noteq> []
    \<and> BindIP config =
        (let given = TrimSpace (cli_String c ''bind-ip''); iface = TrimSpace (cli_String c ''bind-interface'')
         in if given \<noteq> [] then given
            else case (if iface = [] then None else interface_address net iface) of
                   Some a \<Rightarrow> dotted a
                 | None \<Rightarrow> if GetOutboundIP net = [] then [] else IP_String (GetOutboundIP net))
    \<and> (DockerPrefix config \<noteq> [] \<longrightarrow> cli_env c ''DOCKER_HOST'' \<in> {None, Some []})
    \<and> ro_Endpoint (redis_options_of (RedisAddr config) user pass db (RedisSentinelAddrs config) (RedisSentinelMaster config) t)
      = (if RedisSentinelAddrs config = [] \<and> RedisSentinelMaster config = [] then Direct (RedisAddr config)
         else Sentinel (RedisSentinelMaster config) (RedisSentinelAddrs config))"
proof -
  from assms have c: "config = config_of net c" and b: "BindIP config \<noteq> []"
    and p: "DockerPrefix config \<noteq> [] \<longrightarrow> cli_env c ''DOCKER_HOST'' \<in> {None, Some []}"
    and s: "(RedisSentinelAddrs config = []) = (RedisSentinelMaster config = [])"
    by (auto simp: doStart_def Let_def split: if_splits option.splits)
  have "BindIP config =
        (let given = TrimSpace (cli_String c ''bind-ip''); iface = TrimSpace (cli_String c ''bind-interface'')
         in if given \<noteq> [] then given
            else case (if iface = [] then None else interface_address net iface) of
                   Some a \<Rightarrow> dotted a
                 | None \<Rightarrow> if GetOutboundIP net = [] then [] else IP_String (GetOutboundIP net))"
    by (auto simp: c config_of_def getDefaultIP_def GetInterfaceIP_eq TrimSpace_idem Let_def
        interface_address_text split: option.split)
  with b p s show ?thesis by (auto simp: redis_options_of_def)
qed

definition sample_network :: network where
  "sample_network = \<lparr>InterfaceByName = (\<lambda>n. if n = ''eth0'' then Inr (Inr [IPNet [127, 0, 0, 1], IPNet [192, 168, 0, 5]]) else Inl ''no such interface''),
     net_Dial = (\<lambda>_ _. Inr [10, 0, 0, 1])\<rparr>"

definition sample_cli :: "(string \<Rightarrow> flag_value option) \<Rightarrow> cli_context" where
  "sample_cli args = \<lparr>cli_args = args, cli_env = (\<lambda>_. None), cli_parse = (\<lambda>v _. v), cli_flags = flags ''host''\<rparr>"

definition sample_args :: "string \<Rightarrow> flag_value option" where
  "sample_args = map_of [(''bind-interface'', FString ''eth0''), (''redis-ttl'', FInt 60)]"

theorem doStart_checked_witness:
  "case doStart sample_network (sample_cli sample_args) of
     Inl _ \<Rightarrow> False
   | Inr (_, config) \<Rightarrow> BindIP config = ''192.168.0.5'' \<and> RedisTTL config = 60
      \<and> ro_Endpoint (redis_options_of (RedisAddr config) [] [] 0 (RedisSentinelAddrs config) (RedisSentinelMaster config) None)
        = Direct ''127.0.0.1:6379''"
proof -
  let ?c = "sample_cli sample_args"
  have ok: "(case doStart sample_network ?c of Inl _ \<Rightarrow> False | Inr (_, config) \<Rightarrow> RedisTTL config = 60
      \<and> RedisSentinelAddrs config = [] \<and> RedisSentinelMaster config = [] \<and> RedisAddr config = ''127.0.0.1:6379'')"
    by code_simp
  have i: "TrimSpace (cli_String ?c ''bind-ip'') = []" "TrimSpace (cli_String ?c ''bind-interface'') = ''eth0''"
    "map_option dotted (interface_address sample_network ''eth0'') = Some ''192.168.0.5''"
    by code_simp+
  show ?thesis
  proof (cases "doStart sample_network ?c")
    case (Inr r)
    then obtain levels config where r: "doStart sample_network ?c = Inr (levels, config)" by (cases r) simp
    with doStart_checked [OF r, of "[]" "[]" 0 None] ok i show ?thesis by (auto simp: Let_def)
  qed (use ok in simp)
qed

text \<open>
  A list of namespaces written with commas is read back as the same list, by the function that reads
  the labels of the containers and by its copy in the main package that reads the command line.
\<close>

lemma namespaces_round_trip:
  assumes "ws \<noteq> []" and "list_all clean_word ws"
  shows "main_splitStringArr (Join ws '','') = ws \<and> splitStringArr (Join ws '','') = ws"
  using splitStringArr_of_Join [OF assms] by (simp add: main_splitStringArr_def splitStringArr_def)

text \<open>Every setting that \<open>config_of\<close> reads is a declared flag, of the kind it is read as.\<close>

lemma flags_distinct:
  "distinct (map fl_Name (flags h)) \<and> distinct (concat (map fl_EnvVars (flags h)))"
  by (simp add: flags_def flag_def)

text \<open>The provider always watches, and uses no timeout on a unix socket.\<close>

lemma newDockerProvider_watches:
  "newDockerProvider fs config = Inr dp \<Longrightarrow>
     dp_Watch dp \<and> (HasPrefix (dp_Endpoint dp) ''unix://'' \<longrightarrow> dp_HTTPClientTimeout dp = 0)"
  by (auto simp: newDockerProvider_def defaultTimeout_def Let_def split: sum.splits option.splits if_splits)

end
