(* ===== verification/Provider.thy ===== *)
theory Provider
  imports StoreProperties Startup
begin

text \<open>
  The providers and loops that feed and renew the store: \<^verbatim>\<open>multi_provider.go\<close>, \<^verbatim>\<open>polling_provider.go\<close>,
  the listener of \<^verbatim>\<open>configuration_watcher.go\<close> that removes the internal entry point, and \<open>keepStoreAlive\<close>
  of \<^verbatim>\<open>traefik_kop.go\<close>.

  The upstream provider, the worker pools and the contexts belong to traefik and Go. A pool is a number;
  \<open>running\<close> holds the pools in which work is under way, \<open>cancelled\<close> the contexts that have been
  cancelled. Stopping a pool cancels it and waits for its work. The polling loop is a step relation:
  its steps are the ticks, the end of the work of an attempt and the end of the program.
\<close>

section \<open>Several providers as one\<close>

record 'w provider =
  pv_Init :: "'w \<Rightarrow> string option \<times> 'w"
  pv_Provide :: "'w \<Rightarrow> string option \<times> 'w"

fun multi_Init :: "'w provider list \<Rightarrow> 'w \<Rightarrow> string option \<times> 'w" where
  "multi_Init [] w = (None, w)"
| "multi_Init (p # ps) w =
     (let (err, w) = pv_Init p w in if err \<noteq> None then (err, w) else multi_Init ps w)"

fun multi_Provide :: "'w provider list \<Rightarrow> 'w \<Rightarrow> string option \<times> 'w" where
  "multi_Provide [] w = (None, w)"
| "multi_Provide (p # ps) w = (let (err, w) = pv_Provide p w in multi_Provide ps w)"

definition MultiProvider :: "'w provider list \<Rightarrow> 'w provider" where
  "MultiProvider ps = \<lparr>pv_Init = multi_Init ps, pv_Provide = multi_Provide ps\<rparr>"

lemma multi_Init_appended:
  "multi_Init (ps @ qs) w =
     (let (err, w') = multi_Init ps w in if err \<noteq> None then (err, w') else multi_Init qs w')"
  by (induction ps arbitrary: w) (auto simp: Let_def split: prod.splits)

lemma multi_Provide_all: "multi_Provide ps w = (None, fold (\<lambda>p w. snd (pv_Provide p w)) ps w)"
  by (induction ps arbitrary: w) (auto simp: Let_def split: prod.splits)

section \<open>Polling\<close>

text \<open>The polling provider initialises the provider it wraps.\<close>

definition polling_Init :: "'w provider \<Rightarrow> 'w \<Rightarrow> string option \<times> 'w" where
  "polling_Init upstreamProvider = pv_Init upstreamProvider"

record 's polling =
  refreshInterval :: "64 word"
  activeAttempt :: "nat option"
  activeAttemptCancel :: "nat option"
  attemptNumber :: "64 word"
  next_pool :: nat
  running :: "nat list"
  cancelled :: "nat set"
  poll_store :: 's
  returned :: bool

definition NewPollingProvider :: "64 word \<Rightarrow> 's \<Rightarrow> 's polling" where
  "NewPollingProvider interval s =
     \<lparr>refreshInterval = interval, activeAttempt = None, activeAttemptCancel = None, attemptNumber = 0,
      next_pool = 0, running = [], cancelled = {}, poll_store = s, returned = False\<rparr>"

definition cancel_ctx :: "nat \<Rightarrow> 's polling \<Rightarrow> 's polling" where
  "cancel_ctx i p = p\<lparr>cancelled := insert i (cancelled p)\<rparr>"

definition pool_Stop :: "nat \<Rightarrow> 's polling \<Rightarrow> 's polling" where
  "pool_Stop i p = p\<lparr>cancelled := insert i (cancelled p), running := filter (\<lambda>j. j \<noteq> i) (running p)\<rparr>"

text \<open>Cancel and stop the previous attempt, the common part of the next two functions.\<close>

definition stop_previous :: "'s polling \<Rightarrow> 's polling" where
  "stop_previous p =
     (let p = (case activeAttemptCancel p of None \<Rightarrow> p | Some c \<Rightarrow> cancel_ctx c p)
      in case activeAttempt p of None \<Rightarrow> p | Some a \<Rightarrow> pool_Stop a p)"

text \<open>
  \<open>work\<close>: whether the upstream provider has left work in the pool when its \<open>Provide\<close> returns. An
  error of it is only logged.
\<close>

definition startPollAttempt :: "bool \<Rightarrow> 's polling \<Rightarrow> 's polling" where
  "startPollAttempt work p =
     (let p = stop_previous p; i = next_pool p;
          p = p\<lparr>next_pool := Suc i, attemptNumber := attemptNumber p + 1, activeAttempt := Some i, activeAttemptCancel := Some i\<rparr>
      in if work then p\<lparr>running := i # running p\<rparr> else p)"

definition cancelActiveAttempt :: "'s polling \<Rightarrow> 's polling" where
  "cancelActiveAttempt p = (stop_previous p)\<lparr>activeAttempt := None, activeAttemptCancel := None\<rparr>"

text \<open>
  The loop of \<open>Provide\<close>. A panic of the store ends the goroutine; the deferred call runs in any case.
  \<open>env\<close> is what other programs do to the store's server and how time passes.
\<close>

inductive poll_step :: "'s TraefikStore \<Rightarrow> ('s \<Rightarrow> 's \<Rightarrow> bool) \<Rightarrow> 's polling \<Rightarrow> 's polling \<Rightarrow> bool"
  for ts env where
  tick: "\<not> returned p \<Longrightarrow> ts_KeepConfAlive ts (poll_store p) = Some (err, s)
    \<Longrightarrow> poll_step ts env p ((startPollAttempt work p)\<lparr>poll_store := s\<rparr>)"
| panic: "\<not> returned p \<Longrightarrow> ts_KeepConfAlive ts (poll_store p) = None
    \<Longrightarrow> poll_step ts env p ((cancelActiveAttempt (startPollAttempt work p))\<lparr>returned := True\<rparr>)"
| finished: "i \<in> set (running p) \<Longrightarrow> poll_step ts env p (p\<lparr>running := filter (\<lambda>j. j \<noteq> i) (running p)\<rparr>)"
| ctx_done: "\<not> returned p \<Longrightarrow> poll_step ts env p ((cancelActiveAttempt p)\<lparr>returned := True\<rparr>)"
| other: "env (poll_store p) s \<Longrightarrow> poll_step ts env p (p\<lparr>poll_store := s\<rparr>)"

text \<open>
  \<open>Provide\<close>: without an interval there is no loop. \<open>None\<close>: a negative interval makes the ticker panic.
  The result says whether the loop runs.
\<close>

definition polling_Provide :: "'s polling \<Rightarrow> bool option" where
  "polling_Provide p =
     (if refreshInterval p = 0 then Some False
      else if sint (refreshInterval p) \<le> 0 then None else Some True)"

definition polls :: "'s TraefikStore \<Rightarrow> ('s \<Rightarrow> 's \<Rightarrow> bool) \<Rightarrow> 's polling \<Rightarrow> 's polling \<Rightarrow> bool" where
  "polls ts env p q \<longleftrightarrow> (if polling_Provide p = Some True then (poll_step ts env)\<^sup>*\<^sup>* p q else q = p)"

section \<open>At most one attempt\<close>

definition poll_inv :: "'s polling \<Rightarrow> bool" where
  "poll_inv p \<longleftrightarrow> activeAttemptCancel p = activeAttempt p
     \<and> attemptNumber p = of_nat (next_pool p)
     \<and> distinct (running p) \<and> set (running p) \<subseteq> set_option (activeAttempt p)
     \<and> set_option (activeAttempt p) \<subseteq> {..<next_pool p}
     \<and> {..<next_pool p} - set_option (activeAttempt p) \<subseteq> cancelled p
     \<and> (returned p \<longrightarrow> activeAttempt p = None)"

lemma poll_inv_new: "poll_inv (NewPollingProvider interval s)"
  by (simp add: poll_inv_def NewPollingProvider_def)

lemma poll_inv_stop:
  "poll_inv p \<Longrightarrow> running (stop_previous p) = [] \<and> {..<next_pool p} \<subseteq> cancelled (stop_previous p)
     \<and> next_pool (stop_previous p) = next_pool p \<and> attemptNumber (stop_previous p) = attemptNumber p
     \<and> returned (stop_previous p) = returned p"
  by (cases "activeAttempt p")
     (auto simp: poll_inv_def stop_previous_def cancel_ctx_def pool_Stop_def filter_empty_conv)

lemma poll_inv_start: "poll_inv p \<Longrightarrow> \<not> returned p \<Longrightarrow> poll_inv (startPollAttempt work p)"
  using poll_inv_stop [of p] by (auto simp: startPollAttempt_def poll_inv_def Let_def lessThan_Suc)

lemma poll_inv_cancel: "poll_inv p \<Longrightarrow> poll_inv ((cancelActiveAttempt p)\<lparr>returned := True\<rparr>)"
  using poll_inv_stop [of p] by (auto simp: cancelActiveAttempt_def poll_inv_def)

lemma poll_inv_step: "poll_step ts env p q \<Longrightarrow> poll_inv p \<Longrightarrow> poll_inv q"
proof (induction rule: poll_step.induct)
  case (tick p err s work)
  then show ?case using poll_inv_start [of p work] by (auto simp: poll_inv_def)
next
  case (panic p work)
  then show ?case by (intro poll_inv_cancel poll_inv_start)
next
  case (finished i p)
  then show ?case by (auto simp: poll_inv_def)
next
  case (ctx_done p)
  then show ?case by (intro poll_inv_cancel)
next
  case (other p s)
  then show ?case by (simp add: poll_inv_def)
qed

lemma poll_inv_steps: "(poll_step ts env)\<^sup>*\<^sup>* p q \<Longrightarrow> poll_inv p \<Longrightarrow> poll_inv q"
  by (induction rule: rtranclp_induct) (auto intro: poll_inv_step)

section \<open>The entry point of the watcher\<close>

definition defaultEntryPoint :: string where
  "defaultEntryPoint = ''traefik-kop-default-internal''"

definition strip_router :: "router \<Rightarrow> router" where
  "strip_router r = (if rt_EntryPoints r = [defaultEntryPoint] then r\<lparr>rt_EntryPoints := []\<rparr> else r)"

text \<open>The loop over the routers of a section; a nil router panics.\<close>

definition strip_section :: "'srv proto option \<Rightarrow> 'srv proto option option" where
  "strip_section s =
     (case s of
        None \<Rightarrow> Some None
      | Some p \<Rightarrow>
          if list_all (\<lambda>(_, r). r \<noteq> None) (Routers p)
          then Some (Some (p\<lparr>Routers := map (\<lambda>(n, r). (n, map_option strip_router r)) (Routers p)\<rparr>))
          else None)"

definition strip_listener :: "configuration \<Rightarrow> configuration option" where
  "strip_listener conf = do {
     h \<leftarrow> strip_section (HTTP conf);
     t \<leftarrow> strip_section (TCP conf);
     Some (conf\<lparr>HTTP := h, TCP := t\<rparr>)
   }"

section \<open>Renewal\<close>

text \<open>The ticks of a ticker, with what happened to the store before each, and the end of the program.\<close>

datatype 's wakeup = Tick "'s \<Rightarrow> 's" | CtxDone

fun renew_loop :: "'s TraefikStore \<Rightarrow> 's wakeup list \<Rightarrow> 's \<Rightarrow> 's option" where
  "renew_loop ts [] s = Some s"
| "renew_loop ts (Tick pass # ws) s =
     (case ts_KeepConfAlive ts (pass s) of None \<Rightarrow> None | Some (err, s) \<Rightarrow> renew_loop ts ws s)"
| "renew_loop ts (CtxDone # ws) s = Some s"

text \<open>A ticker of a non-positive interval panics.\<close>

definition keepStoreAlive :: "'s TraefikStore \<Rightarrow> 64 word \<Rightarrow> 's wakeup list \<Rightarrow> 's \<Rightarrow> 's option" where
  "keepStoreAlive ts interval ws s = (if sint interval \<le> 0 then None else renew_loop ts ws s)"

definition renew_interval :: "64 word \<Rightarrow> 64 word" where
  "renew_interval ttl = quot (seconds ttl) 3"

text \<open>Time passes on the server: less than \<open>d\<close>, and expired keys disappear.\<close>

definition time_passes :: "('r \<Rightarrow> keyspace) \<Rightarrow> ('r \<Rightarrow> bool) \<Rightarrow> ('r \<Rightarrow> int) \<Rightarrow> int \<Rightarrow> ('r RedisStore \<Rightarrow> 'r RedisStore) \<Rightarrow> bool" where
  "time_passes db up clock d pass \<longleftrightarrow> (\<forall>t. \<exists>r. pass t = t\<lparr>server := r\<rparr> \<and> (up (server t) \<longrightarrow> up r)
     \<and> clock r < clock (server t) + d \<and> db r = expired (clock r) (db (server t)))"

text \<open>
  What the renewal loop relies on: a renewal that comes in time succeeds and leaves a state from which
  the next one that comes in time succeeds again.
\<close>

locale renewing =
  fixes ts :: "'s TraefikStore" and good :: "'s \<Rightarrow> bool" and in_time :: "('s \<Rightarrow> 's) \<Rightarrow> bool"
  assumes renews: "good s \<Longrightarrow> in_time pass \<Longrightarrow> \<exists>s'. ts_KeepConfAlive ts (pass s) = Some (None, s') \<and> good s'"
begin

lemma loop_good:
  assumes "good s" and "\<forall>pass. Tick pass \<in> set ws \<longrightarrow> in_time pass"
  shows "\<exists>t. renew_loop ts ws s = Some t \<and> good t"
  using assms
proof (induction ws arbitrary: s)
  case (Cons e ws)
  show ?case
  proof (cases e)
    case (Tick pass)
    with Cons.prems renews [of s pass] obtain s' where s': "ts_KeepConfAlive ts (pass s) = Some (None, s')" "good s'"
      by auto
    with Cons.IH [of s'] Cons.prems(2) Tick show ?thesis by auto
  qed (use Cons.prems in simp)
qed simp

end

text \<open>The Redis store promises this while the configuration is alive and the ticks come within its TTL.\<close>

definition renewable :: "('r \<Rightarrow> keyspace) \<Rightarrow> ('r \<Rightarrow> bool) \<Rightarrow> ('r \<Rightarrow> int) \<Rightarrow> reflection \<Rightarrow> configuration \<Rightarrow> (string \<rightharpoonup> string) \<Rightarrow> int
    \<Rightarrow> 'r RedisStore \<Rightarrow> bool" where
  "renewable db up clock reflect conf kv d s \<longleftrightarrow> redis (client s) db up clock \<and> flattens reflect conf kv
     \<and> alive db up clock conf kv s \<and> d \<le> TTL s"

lemma renewable_renews:
  assumes "renewable db up clock reflect conf kv d s" and "time_passes db up clock d pass"
  shows "\<exists>s'. ts_KeepConfAlive (redis_store reflect) (pass s) = Some (None, s') \<and> renewable db up clock reflect conf kv d s'"
proof -
  have s: "redis (client s) db up clock" "flattens reflect conf kv" "alive db up clock conf kv s" "d \<le> TTL s"
    using assms(1) by (simp_all add: renewable_def)
  obtain r where r: "pass s = s\<lparr>server := r\<rparr>" "up (server s) \<longrightarrow> up r"
    "clock r < clock (server s) + d" "db r = expired (clock r) (db (server s))"
    using assms(2) unfolding time_passes_def by blast
  have "up r" "clock r < clock (server s) + TTL s" using r(2,3) s(3,4) by (auto simp: alive_def)
  from alive_renew [OF s(1-3) this r(4)] r(1) s show ?thesis
    by (auto simp: redis_store_def renewable_def same_store_def)
qed

interpretation rs: renewing "redis_store reflect" "renewable db up clock reflect conf kv d" "time_passes db up clock d"
  for reflect db up clock conf kv d
  by unfold_locales (rule renewable_renews)

lemma renew_interval_third:
  assumes "0 < sint ttl" and "sint ttl \<le> 9223372036"
  shows "0 < sint (renew_interval ttl) \<and> 3 * sint (renew_interval ttl) \<le> sint (seconds ttl)"
proof -
  define x where "x = sint (seconds ttl)"
  have x: "1000000000 \<le> x" using sint_seconds [of ttl] assms by (simp add: x_def)
  then have "sint (renew_interval ttl) = x div 3"
    using sint_quot [of "seconds ttl" 3] by (simp add: renew_interval_def x_def)
  moreover have "0 < x div 3" "3 * (x div 3) \<le> x" using x by presburger+
  ultimately show ?thesis by (simp add: x_def)
qed

section \<open>Properties\<close>

text \<open>
  C7: with a TTL of at least a second (and below the overflow of a duration) the renewal loop of
  \<open>keepStoreAlive\<close> keeps every published pair alive: whenever each tick comes less than three intervals
  after the last renewal (up to two intervals late), no renewal panics, and every pair is in Redis
  with the whole TTL ahead.
\<close>

theorem renewals_keep_configuration:
  assumes "redis (client s0) db up clock" and "storable db up reflect conf sets kv s0"
    and "TTL s0 = sint (seconds ttl)" and "0 < sint ttl" and "sint ttl \<le> 9223372036"
    and "Store reflect conf s0 = Some (None, s)"
    and "\<forall>pass. Tick pass \<in> set ws \<longrightarrow> time_passes db up clock (3 * sint (renew_interval ttl)) pass"
  shows "\<exists>t. keepStoreAlive (redis_store reflect) (renew_interval ttl) ws s = Some t \<and> lastConfig t = Some conf
    \<and> (\<forall>k v. kv k = Some v \<longrightarrow> db (server t) k = Some (RString v, Some (clock (server t) + TTL t)))"
proof -
  note i = renew_interval_third [OF assms(4,5)]
  have a: "same_store (s0\<lparr>lastConfig := Some conf\<rparr>) s" "alive db up clock conf kv s"
    using store_alive [OF assms(1,2) _ assms(6)] i assms(3) by auto
  have "renewable db up clock reflect conf kv (3 * sint (renew_interval ttl)) s"
    using a assms(1,2,3) i by (auto simp: renewable_def same_store_def storable_def)
  from rs.loop_good [OF this assms(7)] obtain t where
    "renew_loop (redis_store reflect) ws s = Some t" "alive db up clock conf kv t"
    by (auto simp: renewable_def)
  with i show ?thesis by (auto simp: keepStoreAlive_def alive_def)
qed

definition mem_pass :: "int \<Rightarrow> mem RedisStore \<Rightarrow> mem RedisStore" where
  "mem_pass d t = (let now = mem_clock (server t) + d
     in t\<lparr>server := \<lparr>mem_db = filter (\<lambda>(k, _). expired now (mem_keys (server t)) k \<noteq> None) (mem_db (server t)), mem_clock = now\<rparr>\<rparr>)"

lemma mem_pass_time:
  assumes "d < m"
  shows "time_passes mem_keys (\<lambda>_. True) mem_clock m (mem_pass d)"
proof -
  have "mem_keys \<lparr>mem_db = filter (\<lambda>(k, _). expired now (mem_keys r) k \<noteq> None) (mem_db r), mem_clock = now\<rparr>
      = expired now (mem_keys r)" for now r
    by (rule ext) (auto simp: mem_keys_def map_of_filter_key expired_def split: option.splits)
  with assms show ?thesis unfolding time_passes_def mem_pass_def Let_def
    by (intro allI exI conjI) (rule refl, simp_all)
qed

theorem renewals_keep_configuration_witness:
  "\<exists>s t. Store sample_reflect web_conf (sample_store sample_db) = Some (None, s)
     \<and> keepStoreAlive (redis_store sample_reflect) (renew_interval 30)
         [Tick (mem_pass (10 * second)), Tick (mem_pass (25 * second))] s = Some t
     \<and> mem_keys (server t) ''traefik/http/routers/web/service''
         = Some (RString ''web'', Some (mem_clock (server t) + TTL t))"
proof (rule store_effect [OF sample_redis sample_storable])
  fix s stamp U
  assume s: "Store sample_reflect web_conf (sample_store sample_db) = Some (None, s)"
  have n: "sint (30 :: 64 word) = 30" by simp
  have sec: "sint (seconds 30) = 30 * second" using sint_seconds [of 30] by (simp add: second_def)
  have i: "3 * sint (renew_interval 30) = 30 * second"
    using sint_quot [of "seconds 30" 3] sec by (simp add: renew_interval_def second_def)
  have ttl: "TTL (sample_store sample_db) = sint (seconds 30)" by (simp add: sample_store_def sec)
  have p: "\<forall>pass. Tick pass \<in> set [Tick (mem_pass (10 * second)), Tick (mem_pass (25 * second))]
      \<longrightarrow> time_passes mem_keys (\<lambda>_. True) mem_clock (3 * sint (renew_interval 30)) pass"
    unfolding i by (auto simp: second_def intro: mem_pass_time)
  from renewals_keep_configuration [OF sample_redis sample_storable ttl _ _ s p] s show ?thesis
    by (fastforce simp: web_pairs_def)
qed

text \<open>
  C12: polling never has two attempts under way: in every state of the loop at most one pool works, every
  earlier context has been cancelled, the attempt number counts the attempts modulo \<open>2\<^sup>64\<close>, and after
  the loop has returned no attempt is left.
\<close>

theorem polling_one_attempt:
  assumes "polls ts env (NewPollingProvider interval s) p"
  shows "length (running p) \<le> 1 \<and> (\<forall>i < next_pool p. activeAttempt p = Some i \<or> i \<in> cancelled p)
    \<and> attemptNumber p = of_nat (next_pool p) \<and> (returned p \<longrightarrow> running p = [])
    \<and> (next_pool p = 0 \<or> 0 < sint interval)"
proof -
  have inv: "poll_inv p"
    using assms poll_inv_steps [of ts env _ p] poll_inv_new [of interval s] by (auto simp: polls_def split: if_splits)
  have "next_pool p = 0 \<or> 0 < sint interval"
    using assms by (auto simp: polls_def polling_Provide_def NewPollingProvider_def split: if_splits)
  moreover have "card (set (running p)) \<le> 1"
    using inv card_mono [of "set_option (activeAttempt p)" "set (running p)"]
    by (cases "activeAttempt p") (auto simp: poll_inv_def)
  ultimately show ?thesis
    using inv by (cases "activeAttempt p") (auto simp: poll_inv_def distinct_card)
qed

text \<open>A store without a remembered configuration: two ticks, then the end.\<close>

theorem polling_one_attempt_witness:
  "\<exists>p. polls (redis_store sample_reflect) (\<lambda>_ _. False) (NewPollingProvider 60 (sample_store [])) p
     \<and> next_pool p = 2 \<and> returned p \<and> running p = [] \<and> attemptNumber p = 2"
proof -
  let ?ts = "redis_store sample_reflect" and ?s = "sample_store []"
  let ?p0 = "NewPollingProvider 60 ?s"
  let ?p1 = "(startPollAttempt True ?p0)\<lparr>poll_store := ?s\<rparr>"
  let ?p2 = "(startPollAttempt True ?p1)\<lparr>poll_store := ?s\<rparr>"
  let ?p3 = "(cancelActiveAttempt ?p2)\<lparr>returned := True\<rparr>"
  have k: "ts_KeepConfAlive ?ts ?s = Some (None, ?s)" by (simp add: redis_store_def KeepConfAlive_def sample_store_def)
  have f: "\<not> returned ?p0" "poll_store ?p0 = ?s" "\<not> returned ?p1" "poll_store ?p1 = ?s" "\<not> returned ?p2"
    by (simp_all add: NewPollingProvider_def startPollAttempt_def stop_previous_def cancel_ctx_def pool_Stop_def Let_def)
  have "poll_step ?ts (\<lambda>_ _. False) ?p0 ?p1" by (rule poll_step.tick) (use k f in simp_all)
  moreover have "poll_step ?ts (\<lambda>_ _. False) ?p1 ?p2" by (rule poll_step.tick) (use k f in simp_all)
  moreover have "poll_step ?ts (\<lambda>_ _. False) ?p2 ?p3" by (rule poll_step.ctx_done) (use f in simp)
  ultimately have "(poll_step ?ts (\<lambda>_ _. False))\<^sup>*\<^sup>* ?p0 ?p3" by (meson converse_rtranclp_into_rtranclp rtranclp.rtrancl_refl)
  then have p: "polls ?ts (\<lambda>_ _. False) ?p0 ?p3" by (simp add: polls_def polling_Provide_def NewPollingProvider_def)
  have "next_pool ?p3 = 2" "returned ?p3"
    by (simp_all add: NewPollingProvider_def startPollAttempt_def cancelActiveAttempt_def stop_previous_def
        cancel_ctx_def pool_Stop_def Let_def)
  with p polling_one_attempt [OF p] show ?thesis by (intro exI [of _ ?p3]) simp
qed


definition entry_conf :: configuration where
  "entry_conf = web_conf\<lparr>HTTP := Some (sample_section [] [(''web@docker'',
     Some \<lparr>rt_Service = ''web'', rt_EntryPoints = [defaultEntryPoint], rt_rest = GInvalid\<rparr>)])\<rparr>"


end
