(* ===== verification/Handler.thy ===== *)
theory Handler
  imports Lookup Proxy Provider
begin

text \<open>
  The composition of the components, \<open>createConfigHandler\<close> and \<open>Start\<close> of \<^verbatim>\<open>traefik_kop.go\<close>: what a new
  traefik configuration goes through on its way to Redis, and how the program is put together.

  A panic of the handler (also the one for a failed store) is \<open>None\<close>. The constructors of the docker
  and Redis clients and the initialisation of traefik's providers are arguments of \<open>Start\<close>.
\<close>

section \<open>The handler\<close>

definition fresh_cache :: "docker_client \<Rightarrow> dockerCache" where
  "fresh_cache cl = \<lparr>dc_client = cl, dc_list = None, dc_details = [], dc_expires = 0\<rparr>"

definition createConfigHandler :: "kop_config \<Rightarrow> 's TraefikStore \<Rightarrow> docker_provider \<Rightarrow> docker_client
    \<Rightarrow> configuration \<Rightarrow> world \<times> 's \<Rightarrow> (world \<times> 's) option" where
  "createConfigHandler config ts dp dockerClient conf = (\<lambda>(w, s). do {
     let w = w\<lparr>w_cache := fresh_cache dockerClient\<rparr>;
     (conf, w) \<leftarrow> filterServices (Namespace config) conf w;
     (conf, w) \<leftarrow> (if \<not> dp_UseBindPortIP dp \<and> \<not> SkipReplace config
                  then replaceIPs (BindIP config) conf w else Some (conf, w));
     (conf, w, s) \<leftarrow> mergeLoadBalancers conf ts (w, s);
     (err, s) \<leftarrow> ts_Store ts conf s;
     case err of Some e \<Rightarrow> None | None \<Rightarrow> Some (w, s)
   })"

section \<open>The program\<close>

record 'r started =
  st_proxy :: "(string \<times> bool) option"
  st_docker :: string
  st_provider :: docker_provider
  st_polling :: docker_provider
  st_store :: "'r RedisStore"
  st_renew :: "64 word option"
  st_poll :: "64 word"

datatype 'a outcome = Fatal string | Panic | Exited string | Running 'a

definition or_fatal :: "string \<Rightarrow> string + 'a \<Rightarrow> ('a \<Rightarrow> 'b outcome) \<Rightarrow> 'b outcome" where
  "or_fatal msg r f = (case r of Inl e \<Rightarrow> Fatal (msg @ e) | Inr x \<Rightarrow> f x)"

text \<open>The docker host and the provider after the decision for or against the proxy.\<close>

definition start_docker :: "files \<Rightarrow> (string \<Rightarrow> string + 'cl) \<Rightarrow> 'addr tcp \<Rightarrow> kop_config
    \<Rightarrow> ((string \<times> bool) option \<Rightarrow> kop_config \<Rightarrow> docker_provider \<Rightarrow> 'b outcome) \<Rightarrow> 'b outcome" where
  "start_docker fs connect net config f =
     or_fatal ''failed to create docker client: '' (connect (DockerHost config)) (\<lambda>_.
     or_fatal [] (newDockerProvider fs config) (\<lambda>dp.
       if DockerPrefix config \<noteq> [] \<or> \<not> dp_ExposedByDefault dp then
         (case start_endpoint net of
            None \<Rightarrow> Panic
          | Some dockerProxyAddr \<Rightarrow>
              let config' = config\<lparr>DockerHost := dockerProxyAddr\<rparr>
              in or_fatal ''failed to create docker client for proxy: '' (connect dockerProxyAddr) (\<lambda>_.
                 or_fatal [] (newDockerProvider fs config')
                   (f (Some (DockerPrefix config, dp_ExposedByDefault dp)) config')))
       else f None config dp))"

definition ping_error :: "kop_config \<Rightarrow> string \<Rightarrow> string" where
  "ping_error config err =
     (if RedisSentinelAddrs config \<noteq> []
      then ''failed to connect to redis via sentinel (master='' @ RedisSentinelMaster config @ ''): '' @ err
      else if Contains err (RedisAddr config) then ''failed to connect to redis: '' @ err
      else ''failed to connect to redis at '' @ RedisAddr config @ '': '' @ err)"

text \<open>A docker provider of traefik, initialised by \<open>init\<close>; what it provides is no part of the start-up.\<close>

definition provider_of :: "(docker_provider \<Rightarrow> string option) \<Rightarrow> docker_provider \<Rightarrow> unit provider" where
  "provider_of init dp = \<lparr>pv_Init = (\<lambda>w. (init dp, w)), pv_Provide = (\<lambda>w. (None, w))\<rparr>"

text \<open>The Redis store, the providers and the intervals, for the chosen docker host and provider.\<close>

definition start_store :: "files \<Rightarrow> ('pool, 'cert) x509 \<Rightarrow> (('pool, 'cert) tls_config redis_options \<Rightarrow> 'r redis_client \<times> 'r)
    \<Rightarrow> (nat \<Rightarrow> int) \<Rightarrow> (nat \<Rightarrow> nat) \<Rightarrow> (docker_provider \<Rightarrow> string option)
    \<Rightarrow> (string \<times> bool) option \<Rightarrow> kop_config \<Rightarrow> docker_provider \<Rightarrow> 'r started outcome" where
  "start_store fs x dial clock seed init proxy config dp =
     or_fatal ''invalid redis TLS configuration: '' (Build fs x (RedisTLS config)) (\<lambda>redisTLS.
       let s = NewRedisStore dial clock seed (cfg_Hostname config) (RedisAddr config) (RedisTTL config) (RedisUser config)
             (RedisPass config) (RedisDB config) (RedisSentinelAddrs config) (RedisSentinelMaster config) redisTLS;
           (err, s) = Ping s
       in case err of
            Some e \<Rightarrow> Fatal (ping_error config e)
          | None \<Rightarrow>
              or_fatal [] (newDockerProvider fs config) (\<lambda>pdp.
                let pdp = pdp\<lparr>dp_Watch := False\<rparr>;
                    polling = (provider_of init pdp)\<lparr>pv_Init := polling_Init (provider_of init pdp)\<rparr>;
                    (err, _) = pv_Init (MultiProvider [provider_of init dp, polling]) ()
                in if err \<noteq> None then Panic
                   else Running \<lparr>st_proxy = proxy, st_docker = DockerHost config, st_provider = dp, st_polling = pdp,
                     st_store = s, st_renew = (if 0 < sint (RedisTTL config) then Some (renew_interval (RedisTTL config)) else None),
                     st_poll = seconds (PollInterval config)\<rparr>))"

definition Start :: "files \<Rightarrow> ('pool, 'cert) x509 \<Rightarrow> (('pool, 'cert) tls_config redis_options \<Rightarrow> 'r redis_client \<times> 'r)
    \<Rightarrow> (nat \<Rightarrow> int) \<Rightarrow> (nat \<Rightarrow> nat) \<Rightarrow> (docker_provider \<Rightarrow> string option) \<Rightarrow> string \<Rightarrow> (client_opt list \<Rightarrow> string + 'cl) \<Rightarrow> 'addr tcp
    \<Rightarrow> kop_config \<Rightarrow> 'r started outcome" where
  "Start fs x dial clock seed init version NewClientWithOpts net config =
     start_docker fs (createDockerClient version NewClientWithOpts) net config (start_store fs x dial clock seed init)"

section \<open>The stages keep configurations well formed\<close>

lemma published_section_keeps:
  assumes "published_section f s = Some s'"
  shows "map_option Routers s' = map_option Routers s \<and> keys_of (services s') = keys_of (services s) \<and> (s' = None) = (s = None)
    \<and> (wf_section s \<longrightarrow> wf_section s')"
  using assms keys_map_entries
  by (cases s) (auto simp: published_section_def wf_proto_def wf_map_def dest!: keys_map_entries)

lemma published_configuration_keeps:
  assumes "published_configuration own ip conf = Some conf'"
  shows "\<forall>svcType. routers_of svcType conf' = routers_of svcType conf"
    and "keys_of (services (HTTP conf')) = keys_of (services (HTTP conf))"
    and "keys_of (services (TCP conf')) = keys_of (services (TCP conf))"
    and "keys_of (services (UDP conf')) = keys_of (services (UDP conf))"
    and "wf_configuration conf \<longrightarrow> wf_configuration conf'" and "full conf \<longrightarrow> full conf'"
proof -
  from assms obtain h t u where c: "conf' = conf\<lparr>HTTP := h, TCP := t, UDP := u\<rparr>"
    and p: "published_section (\<lambda>n. published_http (own ''http'' n) ip n) (HTTP conf) = Some h"
      "published_section (\<lambda>n. published_l4 (own ''tcp'' n) ''tcp'' ip n) (TCP conf) = Some t"
      "published_section (\<lambda>n. published_l4 (own ''udp'' n) ''udp'' ip n) (UDP conf) = Some u"
    by (auto simp: published_configuration_def bind_eq_Some_conv)
  note k = p [THEN published_section_keeps]
  show "\<forall>svcType. routers_of svcType conf' = routers_of svcType conf"
    using k by (simp add: c routers_of_def)
  show "keys_of (services (HTTP conf')) = keys_of (services (HTTP conf))"
    "keys_of (services (TCP conf')) = keys_of (services (TCP conf))"
    "keys_of (services (UDP conf')) = keys_of (services (UDP conf))"
    "wf_configuration conf \<longrightarrow> wf_configuration conf'" "full conf \<longrightarrow> full conf'"
    using k by (auto simp: c wf_configuration_def full_def)
qed

lemma wf_filtered: "wf_configuration conf \<Longrightarrow> wf_configuration (filtered_configuration ns own rown conf)"
  by (auto simp: wf_configuration_def filtered_configuration_def filtered_def wf_section_def wf_proto_def list_all_iff
      split: option.splits)

lemma full_filtered: "full conf \<Longrightarrow> full (filtered_configuration ns own rown conf)"
  by (simp add: full_def filtered_configuration_def)

section \<open>The stages in sequence\<close>

text \<open>
  \<open>handled D ns ip conf own rown conf2\<close>: with the containers \<open>D\<close>, the configuration \<open>conf2\<close> is \<open>conf\<close> without
  the services and routers of other namespaces and with the addresses and ports of this host.
\<close>

definition handled :: "(string, inspect_response) gomap \<Rightarrow> string list \<Rightarrow> string \<Rightarrow> configuration
    \<Rightarrow> (string \<Rightarrow> string \<Rightarrow> inspect_response option) \<Rightarrow> (string \<Rightarrow> string \<Rightarrow> inspect_response option)
    \<Rightarrow> configuration \<Rightarrow> bool" where
  "handled D ns ip conf own rown conf2 \<longleftrightarrow> wf_configuration conf \<and> full conf \<and> owned_configuration D conf own rown
     \<and> resolvable D (filtered_configuration ns own rown conf) own ip
     \<and> published_configuration own ip (filtered_configuration ns own rown conf) = Some conf2"

lemma stages_before_store:
  assumes "settled D w" and "handled D ns ip conf own rown conf2" and "J s" and "answering ts E J"
  shows "\<exists>w1 w2 w3 conf3 s3. filterServices ns conf w = Some (filtered_configuration ns own rown conf, w1)
    \<and> replaceIPs ip (filtered_configuration ns own rown conf) w1 = Some (conf2, w2)
    \<and> mergeLoadBalancers conf2 ts (w2, s) = Some (conf3, w3, s3) \<and> J s3 \<and> merged_configuration E own conf2 conf3"
proof -
  let ?c1 = "filtered_configuration ns own rown conf"
  have h: "wf_configuration ?c1" "full ?c1" "owned_configuration D conf own rown" "resolvable D ?c1 own ip"
    "published_configuration own ip ?c1 = Some conf2"
    using assms(2) by (auto simp: handled_def wf_filtered full_filtered)
  obtain w1 where 1: "filterServices ns conf w = Some (?c1, w1)" "settled D w1"
    using filterServices_eq [OF assms(1) h(3)] by blast
  obtain w2 where 2: "replaceIPs ip ?c1 w1 = Some (conf2, w2)" "settled D w2"
    using replaceIPs_eq [OF 1(2) h(1,4)] h(5) by auto
  note k = published_configuration_keeps [OF h(5)]
  have res: "resolves D conf2 svcType n ow" if "resolves D ?c1 svcType n ow" for svcType n ow
    using that k(1) resolves_cong by metis
  have "\<exists>conf' w' s'. settled D w' \<and> J s' \<and> mergeLoadBalancers conf2 ts (w2, s) = Some (conf', w', s')
      \<and> merged_configuration E own conf2 conf'"
    using h(4) k h(1,2) by (intro mergeLoadBalancers_merged [OF 2(2) assms(3,4)]) (auto simp: resolvable_def intro: res)
  with 1 2 show ?thesis by blast
qed

text \<open>Nobody else touches the server while the handler runs.\<close>

definition quiet :: "('r \<Rightarrow> keyspace) \<Rightarrow> ('r \<Rightarrow> bool) \<Rightarrow> ('r \<Rightarrow> int) \<Rightarrow> 'r RedisStore \<Rightarrow> 'r RedisStore \<Rightarrow> bool" where
  "quiet db up clock s s' \<longleftrightarrow> same_store s s' \<and> (up (server s) \<longrightarrow> up (server s')) \<and> db (server s') = db (server s)
     \<and> clock (server s') = clock (server s)"

lemma handler_run:
  assumes "loadable D (w\<lparr>w_cache := fresh_cache cl\<rparr>)"
    and "handled D (Namespace config) (BindIP config) conf own rown conf2"
    and "\<not> dp_UseBindPortIP dp" and "\<not> SkipReplace config"
    and "redis (client s) db up clock" and "answering (redis_store reflect) E J" and "J s"
    and "\<forall>s'. J s' \<longrightarrow> quiet db up clock s s'"
    and "\<forall>conf3. merged_configuration E own conf2 conf3 \<longrightarrow> storable db up reflect conf3 (sets conf3) (kv conf3) s"
  shows "\<exists>w' s' conf3 stamp U. createConfigHandler config (redis_store reflect) dp cl conf (w, s) = Some (w', s')
    \<and> merged_configuration E own conf2 conf3 \<and> lastConfig s' = Some conf3
    \<and> U \<subseteq> old_keys (Hostname s) (sets conf3) (db (server s))
    \<and> publish (Hostname s) (expiry (clock (server s)) (TTL s)) stamp (sets conf3) conf3 (kv conf3) U (db (server s)) (db (server s'))"
proof -
  have set: "settled D (w\<lparr>w_cache := fresh_cache cl\<rparr>)" using assms(1) by (simp add: settled_def)
  from stages_before_store [OF set assms(2,7,6)] obtain w1 w2 w3 conf3 s3 where
    st: "filterServices (Namespace config) conf (w\<lparr>w_cache := fresh_cache cl\<rparr>)
        = Some (filtered_configuration (Namespace config) own rown conf, w1)"
      "replaceIPs (BindIP config) (filtered_configuration (Namespace config) own rown conf) w1 = Some (conf2, w2)"
      "mergeLoadBalancers conf2 (redis_store reflect) (w2, s) = Some (conf3, w3, s3)"
    and J: "J s3" and m: "merged_configuration E own conf2 conf3" by blast
  have q: "quiet db up clock s s3" using assms(8) J by blast
  have so: "storable db up reflect conf3 (sets conf3) (kv conf3) s3"
    using assms(9) m q by (auto simp: storable_def quiet_def same_store_def)
  have red: "redis (client s3) db up clock" using assms(5) q by (simp add: quiet_def same_store_def)
  show ?thesis
  proof (rule store_effect [OF red so])
    fix s' stamp U
    assume s': "Store reflect conf3 s3 = Some (None, s')" "same_store (s3\<lparr>lastConfig := Some conf3\<rparr>) s'"
      and U: "U \<subseteq> old_keys (Hostname s3) (sets conf3) (db (server s3))"
      and p: "publish (Hostname s3) (expiry (clock (server s3)) (TTL s3)) stamp (sets conf3) conf3 (kv conf3) U (db (server s3)) (db (server s'))"
    have "createConfigHandler config (redis_store reflect) dp cl conf (w, s) = Some (w3, s')"
      using st s'(1) assms(3,4) by (simp add: createConfigHandler_def redis_store_def)
    moreover have "lastConfig s' = Some conf3" using s'(2) by (simp add: same_store_def)
    ultimately show ?thesis using m U p q by (auto simp: quiet_def same_store_def)
  qed
qed

section \<open>Starting\<close>

lemma or_fatal_Running: "or_fatal msg r f = Running y \<longleftrightarrow> (\<exists>x. r = Inr x \<and> f x = Running y)"
  by (simp add: or_fatal_def split: sum.splits)

lemma newDockerProvider_fields:
  assumes "newDockerProvider fs config = Inr dp" and "loadDockerConfig fs (DockerConfig config) = Inr dp0"
  shows "dp_Endpoint dp = (case dp0 of None \<Rightarrow> DockerHost config
      | Some d \<Rightarrow> if dp_Endpoint d = [] then DockerHost config else dp_Endpoint d)
    \<and> dp_Watch dp \<and> dp_ExposedByDefault dp = (case dp0 of None \<Rightarrow> False | Some d \<Rightarrow> dp_ExposedByDefault d)"
  using assms by (cases dp0) (auto simp: newDockerProvider_def zero_provider_def Let_def split: if_splits)

lemma start_docker_Running:
  assumes "start_docker fs connect net config f = Running y"
  obtains (direct) dp where "newDockerProvider fs config = Inr dp" and "DockerPrefix config = []"
      and "dp_ExposedByDefault dp" and "f None config dp = Running y"
  | (proxied) dp dp' config' port where "newDockerProvider fs config = Inr dp"
      and "DockerPrefix config \<noteq> [] \<or> \<not> dp_ExposedByDefault dp"
      and "getAvailablePort net = Inr port"
      and "config' = config\<lparr>DockerHost := ''http://localhost:'' @ FormatInt (int port)\<rparr>"
      and "newDockerProvider fs config' = Inr dp'"
      and "f (Some (DockerPrefix config, dp_ExposedByDefault dp)) config' dp' = Running y"
proof -
  from assms obtain dp where dp: "newDockerProvider fs config = Inr dp"
    by (auto simp: start_docker_def or_fatal_Running)
  show thesis
  proof (cases "DockerPrefix config \<noteq> [] \<or> \<not> dp_ExposedByDefault dp")
    case True
    with assms dp obtain port where port: "getAvailablePort net = Inr port"
      by (auto simp: start_docker_def or_fatal_Running start_endpoint_def split: sum.splits)
    let ?config = "config\<lparr>DockerHost := ''http://localhost:'' @ FormatInt (int port)\<rparr>"
    have "\<exists>dp'. newDockerProvider fs ?config = Inr dp'
        \<and> f (Some (DockerPrefix config, dp_ExposedByDefault dp)) ?config dp' = Running y"
      using assms dp True port by (simp add: start_docker_def or_fatal_Running start_endpoint_def Let_def)
    then obtain dp' where "newDockerProvider fs ?config = Inr dp'"
      "f (Some (DockerPrefix config, dp_ExposedByDefault dp)) ?config dp' = Running y" by blast
    then show thesis by (rule proxied [OF dp True port refl])
  next
    case False
    then show thesis using assms dp by (intro direct [OF dp]) (auto simp: start_docker_def or_fatal_Running)
  qed
qed

lemma start_store_Running:
  assumes "start_store fs x dial clock seed init proxy config dp = Running st"
  shows "st_proxy st = proxy \<and> st_docker st = DockerHost config \<and> st_provider st = dp
    \<and> (\<exists>pdp. newDockerProvider fs config = Inr pdp \<and> st_polling st = pdp\<lparr>dp_Watch := False\<rparr>)
    \<and> st_renew st = (if 0 < sint (RedisTTL config) then Some (renew_interval (RedisTTL config)) else None)
    \<and> TTL (st_store st) = sint (seconds (RedisTTL config)) \<and> Hostname (st_store st) = cfg_Hostname config
    \<and> lastConfig (st_store st) = None"
proof -
  from assms obtain redisTLS where b: "Build fs x (RedisTLS config) = Inr redisTLS"
    by (auto simp: start_store_def or_fatal_Running)
  let ?s = "NewRedisStore dial clock seed (cfg_Hostname config) (RedisAddr config) (RedisTTL config) (RedisUser config)
    (RedisPass config) (RedisDB config) (RedisSentinelAddrs config) (RedisSentinelMaster config) redisTLS"
  obtain err s where p: "Ping ?s = (err, s)" by fastforce
  have "TTL s = TTL ?s" "Hostname s = Hostname ?s" "lastConfig s = lastConfig ?s"
    using p by (auto simp: Ping_def call_def split: prod.splits)
  then have "TTL s = sint (seconds (RedisTTL config)) \<and> Hostname s = cfg_Hostname config \<and> lastConfig s = None"
    by (simp add: NewRedisStore_def split: prod.splits)
  moreover have "err = None" using assms b p by (cases err) (simp_all add: start_store_def or_fatal_def)
  moreover obtain pdp where "newDockerProvider fs config = Inr pdp"
    using assms b p \<open>err = None\<close> by (auto simp: start_store_def or_fatal_Running Let_def)
  ultimately show ?thesis
    using assms b p by (auto simp: start_store_def or_fatal_def Let_def split: if_splits prod.splits)
qed

section \<open>Properties\<close>

text \<open>
  C1: the handler takes a new configuration all the way to Redis. With a daemon that answers steadily
  and containers that determine the owners, and a store that obeys the laws and that nobody else
  changes meanwhile, it does not panic, and what it publishes is exactly the configuration without
  the services and routers of other namespaces, with the addresses and ports of this host, merged
  with the servers of other nodes where the containers ask for it.
\<close>

theorem handler_publishes:
  assumes "loadable D (w\<lparr>w_cache := fresh_cache cl\<rparr>)"
    and "handled D (Namespace config) (BindIP config) conf own rown conf2"
    and "\<not> dp_UseBindPortIP dp" and "\<not> SkipReplace config"
    and "redis (client s) db up clock" and "answering (redis_store reflect) E J" and "J s"
    and "\<forall>s'. J s' \<longrightarrow> quiet db up clock s s'"
    and "\<forall>conf3. merged_configuration E own conf2 conf3 \<longrightarrow> storable db up reflect conf3 (sets conf3) (kv conf3) s"
  shows "\<exists>w' s' conf3 stamp U. createConfigHandler config (redis_store reflect) dp cl conf (w, s) = Some (w', s')
    \<and> merged_configuration E own conf2 conf3 \<and> lastConfig s' = Some conf3
    \<and> U \<subseteq> old_keys (Hostname s) (sets conf3) (db (server s))
    \<and> publish (Hostname s) (expiry (clock (server s)) (TTL s)) stamp (sets conf3) conf3 (kv conf3) U (db (server s)) (db (server s'))"
  by (rule handler_run [OF assms])

definition host_conf :: configuration where
  "host_conf = sample_configuration [url_server ''http://192.168.0.5:8080'']"

definition host_pairs :: "(string, string) gomap" where
  "host_pairs = [(''traefik/http/routers/web/service'', ''web''),
     (''traefik/http/services/web/loadBalancer/servers/0/url'', ''http://192.168.0.5:8080'')]"

definition sample_config :: kop_config where
  "sample_config = \<lparr>DockerConfig = [], DockerHost = ''unix:///var/run/docker.sock'', DockerPrefix = [],
     cfg_Hostname = ''node1'', BindIP = ''192.168.0.5'', SkipReplace = False, RedisAddr = ''127.0.0.1:6379'',
     RedisTTL = 30, RedisUser = ''default'', RedisPass = [], RedisDB = 0,
     RedisTLS = \<lparr>tls_Enabled = False, tls_CAFile = [], tls_CertFile = [], tls_KeyFile = [], tls_ServerName = [],
       tls_InsecureSkipVerify = False\<rparr>,
     RedisSentinelAddrs = [], RedisSentinelMaster = [], PollInterval = 60, Namespace = []\<rparr>"

lemma sample_loadable:
  assumes "wf_map D" and "list_all (\<lambda>(_, c). normal_container c) D"
  shows "loadable D ((sample_world D)\<lparr>w_cache := fresh_cache (sample_client D)\<rparr>)"
proof -
  have "normalizes_to c c" if "(i, c) \<in> set D" for i c
  proof -
    from that assms(2) have "normal_container c" by (auto simp: list_all_iff)
    then obtain cfg where "Config c = Some cfg" "normal_labels (Labels cfg)"
      by (auto simp: normal_container_def labels_normal_def container_labels_def)
    then show ?thesis by (simp add: normalizes_to_def normalizeLabels_id set_labels_id)
  qed
  moreover have "map_of D i = Some c" if "(i, c) \<in> set D" for i c using that wf_map_lookup [OF assms(1)] by simp
  ultimately have "steady (sample_client D) 0 D"
    by (auto simp: steady_def sample_client_def comp_def case_prod_unfold)
  with assms show ?thesis
    by (simp add: loadable_def fresh_cache_def brisk_def sample_world_def cache_ttl_def second_def)
qed

lemma nothing_merged:
  assumes "merged_configuration (\<lambda>_. []) own conf conf'" and "wf_configuration conf"
  shows "conf' = conf"
proof -
  have "s' = s" if "merged_section getKey makeServer (\<lambda>n. to_merge (\<lambda>_. []) (ow n) ty n) s s'" "wf_section s"
    for getKey and makeServer :: "string \<Rightarrow> 'srv" and ow ty s s'
  proof -
    from that obtain p m where s: "s = Some p" "s' = Some (p\<lparr>Services := m\<rparr>)"
      and e: "entrywise (\<lambda>n. merged getKey makeServer (to_merge (\<lambda>_. []) (ow n) ty n)) (Services p) m"
      unfolding merged_section_def by blast
    have "to_merge (\<lambda>_. []) (ow n) ty n = []" for n by (simp add: to_merge_def split: option.split)
    then have "m = Services p"
      using e that(2) s(1) by (intro entrywise_eq [OF e]) (auto simp: wf_proto_def merged_def split: option.splits)
    with s show ?thesis by simp
  qed
  with assms have "HTTP conf' = HTTP conf" "TCP conf' = TCP conf" "UDP conf' = UDP conf" "conf_rest conf' = conf_rest conf"
    unfolding merged_configuration_def wf_configuration_def by blast+
  then show ?thesis by (intro configuration.equality) simp_all
qed

lemma host_storable: "storable mem_keys (\<lambda>_. True) sample_reflect host_conf web_sets (map_of host_pairs) (sample_store [])"
proof -
  have r: "sample_reflect seed host_conf = sample_reflect 0 host_conf" for seed
    by (simp add: sample_reflect_def reflect_section_def host_conf_def sample_configuration_def sample_section_def web_routers_def)
  have "ConfigToKV (sample_reflect 0 host_conf) = Inr host_pairs" by code_simp
  then have "ConfigToKV (sample_reflect seed host_conf) = Inr host_pairs" for seed by (simp only: r [of seed])
  moreover have "list_all (\<lambda>k. HasPrefix k ''traefik/'') (keys_of host_pairs)" by code_simp
  then have "HasPrefix k ''traefik/''" if "map_of host_pairs k = Some v" for k v
    using map_of_SomeD [OF that] by (simp only: list_all_iff) force
  ultimately have "flattens sample_reflect host_conf (map_of host_pairs)" unfolding flattens_def by auto
  moreover have "tracked host_conf = Some web_sets" "plain_services host_conf" by code_simp+
  moreover have "trackable ''node1'' (mem_keys (server (sample_store [])))" by code_simp
  ultimately show ?thesis by (simp add: storable_def sample_store_def second_def)
qed

text \<open>A first configuration of the sample host, from an empty Redis.\<close>

definition sample_unchanged :: "mem RedisStore \<Rightarrow> bool" where
  "sample_unchanged s \<longleftrightarrow> same_store (sample_store []) s \<and> server s = server (sample_store [])"

lemma sample_run:
  shows "loadable (web_host []) ((sample_world (web_host []))\<lparr>w_cache := fresh_cache (sample_client (web_host []))\<rparr>)"
    and "handled (web_host []) (Namespace sample_config) (BindIP sample_config) web_conf (c1_of []) (c1_of []) host_conf"
    and "\<not> dp_UseBindPortIP zero_provider" and "\<not> SkipReplace sample_config"
    and "answering (redis_store sample_reflect) (\<lambda>_. []) sample_unchanged" and "sample_unchanged (sample_store [])"
    and "\<forall>s'. sample_unchanged s' \<longrightarrow> quiet mem_keys (\<lambda>_. True) mem_clock (sample_store []) s'"
    and "\<forall>conf3. merged_configuration (\<lambda>_. []) (c1_of []) host_conf conf3
      \<longrightarrow> storable mem_keys (\<lambda>_. True) sample_reflect conf3 web_sets (map_of host_pairs) (sample_store [])"
proof -
  show "loadable (web_host []) ((sample_world (web_host []))\<lparr>w_cache := fresh_cache (sample_client (web_host []))\<rparr>)"
    by (rule sample_loadable) code_simp+
  have "wf_configuration web_conf" "full web_conf" "owned_configuration (web_host []) web_conf (c1_of []) (c1_of [])"
    "resolvable (web_host []) (filtered_configuration [] (c1_of []) (c1_of []) web_conf) (c1_of []) ''192.168.0.5''"
    "published_configuration (c1_of []) ''192.168.0.5'' (filtered_configuration [] (c1_of []) (c1_of []) web_conf) = Some host_conf"
    by code_simp+
  then show "handled (web_host []) (Namespace sample_config) (BindIP sample_config) web_conf (c1_of []) (c1_of []) host_conf"
    by (simp add: handled_def sample_config_def)
  show "\<not> dp_UseBindPortIP zero_provider" "\<not> SkipReplace sample_config"
    by (simp_all add: zero_provider_def sample_config_def)
  show "answering (redis_store sample_reflect) (\<lambda>_. []) sample_unchanged"
    by (auto simp: answering_def redis_store_def Gets_def call_def sample_unchanged_def sample_store_def same_store_def
        mem_client_def split: prod.splits)
  show "sample_unchanged (sample_store [])" "\<forall>s'. sample_unchanged s' \<longrightarrow> quiet mem_keys (\<lambda>_. True) mem_clock (sample_store []) s'"
    by (simp_all add: sample_unchanged_def quiet_def)
  have "wf_configuration host_conf" by code_simp
  then show "\<forall>conf3. merged_configuration (\<lambda>_. []) (c1_of []) host_conf conf3
      \<longrightarrow> storable mem_keys (\<lambda>_. True) sample_reflect conf3 web_sets (map_of host_pairs) (sample_store [])"
    using nothing_merged host_storable by blast
qed

theorem handler_publishes_witness:
  "\<exists>w' s'. createConfigHandler sample_config (redis_store sample_reflect) zero_provider (sample_client (web_host []))
      web_conf (sample_world (web_host []), sample_store []) = Some (w', s') \<and> lastConfig s' = Some host_conf"
proof -
  have wf: "wf_configuration host_conf" by code_simp
  from handler_publishes [OF sample_run(1-4) sample_redis sample_run(5-8)] obtain w' s' conf3 where
    h: "createConfigHandler sample_config (redis_store sample_reflect) zero_provider (sample_client (web_host []))
      web_conf (sample_world (web_host []), sample_store []) = Some (w', s')" "merged_configuration (\<lambda>_. []) (c1_of []) host_conf conf3"
      "lastConfig s' = Some conf3"
    by auto
  with nothing_merged [OF h(2) wf] show ?thesis by auto
qed


definition local_tcp :: "unit tcp" where
  "local_tcp = \<lparr>ResolveTCPAddr = (\<lambda>_ _. Inr ()), ListenTCP = (\<lambda>_ _. Inr 80)\<rparr>"

definition yaml_endpoint :: files where
  "yaml_endpoint = \<lparr>os_Stat = (\<lambda>_. None), os_Open = (\<lambda>_. Inl []), os_ReadFile = (\<lambda>_. Inl []),
     yaml_Decode = (\<lambda>_. Inr (zero_provider\<lparr>dp_Endpoint := ''tcp://docker:2375''\<rparr>))\<rparr>"


end
