(* ===== verification/Shape.thy ===== *)
theory Shape
  imports Handler "HOL-Library.Sublist"
begin

text \<open>
  What the handler keeps of a configuration, whatever the docker daemon and the store answer: each
  stage only deletes services and routers and changes the servers of load balancers. \<open>derived\<close> is
  that relation; it is transitive and keeps configurations well formed.
\<close>

section \<open>Derived configurations\<close>

definition other_servers :: "'srv service option \<Rightarrow> 'srv service option \<Rightarrow> bool" where
  "other_servers v v' \<longleftrightarrow> v' = v \<or> (\<exists>s lb servers. v = Some s \<and> LoadBalancer s = Some lb
     \<and> v' = Some (s\<lparr>LoadBalancer := Some (lb\<lparr>lb_Servers := servers\<rparr>)\<rparr>))"

definition derived_services :: "'srv service_map \<Rightarrow> 'srv service_map \<Rightarrow> bool" where
  "derived_services m m' \<longleftrightarrow> subseq (keys_of m') (keys_of m)
     \<and> (\<forall>n v'. (n, v') \<in> set m' \<longrightarrow> (\<exists>v. (n, v) \<in> set m \<and> other_servers v v'))"

definition derived :: "'srv proto option \<Rightarrow> 'srv proto option \<Rightarrow> bool" where
  "derived s s' \<longleftrightarrow> (case s of None \<Rightarrow> s' = None
     | Some p \<Rightarrow> \<exists>m Q. s' = Some (p\<lparr>Services := m, Routers := filter Q (Routers p)\<rparr>) \<and> derived_services (Services p) m)"

definition derived_configuration :: "configuration \<Rightarrow> configuration \<Rightarrow> bool" where
  "derived_configuration c c' \<longleftrightarrow> derived (HTTP c) (HTTP c') \<and> derived (TCP c) (TCP c') \<and> derived (UDP c) (UDP c')
     \<and> conf_rest c' = conf_rest c"

lemma other_servers_trans: "other_servers u v \<Longrightarrow> other_servers v w \<Longrightarrow> other_servers u w"
proof (cases "v = u")
  case False
  assume a: "other_servers u v" "other_servers v w"
  from a(1) False obtain s lb ss where u: "u = Some s" "LoadBalancer s = Some lb"
    and v: "v = Some (s\<lparr>LoadBalancer := Some (lb\<lparr>lb_Servers := ss\<rparr>)\<rparr>)" by (auto simp: other_servers_def)
  from a(2) v have "\<exists>ts. w = Some (s\<lparr>LoadBalancer := Some (lb\<lparr>lb_Servers := ts\<rparr>)\<rparr>)"
    by (auto simp: other_servers_def)
  with u show ?thesis by (auto simp: other_servers_def)
qed simp

lemma derived_services_refl [simp]: "derived_services m m"
  by (auto simp: derived_services_def other_servers_def)

lemma derived_services_trans:
  assumes "derived_services l m" and "derived_services m n"
  shows "derived_services l n"
proof -
  have "subseq (keys_of n) (keys_of l)"
    using assms subseq_order.order_trans unfolding derived_services_def by blast
  moreover have "\<exists>v. (k, v) \<in> set l \<and> other_servers v v'" if k: "(k, v') \<in> set n" for k v'
  proof -
    obtain v where v: "(k, v) \<in> set m" "other_servers v v'" using assms(2) k unfolding derived_services_def by blast
    then obtain u where "(k, u) \<in> set l" "other_servers u v" using assms(1) unfolding derived_services_def by blast
    with v(2) other_servers_trans show ?thesis by blast
  qed
  ultimately show ?thesis by (simp add: derived_services_def)
qed

lemma derived_Some:
  assumes "derived_services (Services p) m"
  shows "derived (Some p) (Some (p\<lparr>Services := m, Routers := filter Q (Routers p)\<rparr>))"
  using assms by (auto simp: derived_def)

lemma derived_services_only: "derived_services (Services p) m \<Longrightarrow> derived (Some p) (Some (p\<lparr>Services := m\<rparr>))"
  using derived_Some [of p m "\<lambda>_. True"] by simp

lemma derived_refl [simp]: "derived s s"
proof (cases s)
  case (Some p)
  with derived_services_only [of p "Services p"] show ?thesis by simp
qed (simp add: derived_def)

lemma derived_trans:
  assumes "derived s t" and "derived t u"
  shows "derived s u"
proof (cases s)
  case (Some p)
  with assms(1) obtain m Q where t: "t = Some (p\<lparr>Services := m, Routers := filter Q (Routers p)\<rparr>)" "derived_services (Services p) m"
    by (auto simp: derived_def)
  with assms(2) obtain m' Q' where u: "u = Some (p\<lparr>Services := m', Routers := filter Q' (filter Q (Routers p))\<rparr>)"
    "derived_services m m'" by (auto simp: derived_def)
  have "u = Some (p\<lparr>Services := m', Routers := filter (\<lambda>x. Q x \<and> Q' x) (Routers p)\<rparr>)"
    unfolding u(1) by (simp add: conj_commute)
  with derived_Some [OF derived_services_trans [OF t(2) u(2)]] Some show ?thesis by simp
qed (use assms in \<open>simp add: derived_def\<close>)

lemma derived_configuration_refl [simp]: "derived_configuration c c"
  by (simp add: derived_configuration_def)

lemma derived_configuration_trans:
  assumes "derived_configuration a b" and "derived_configuration b c"
  shows "derived_configuration a c"
  using assms unfolding derived_configuration_def by (auto intro: derived_trans)

lemma subseq_distinct_list: "subseq xs ys \<Longrightarrow> distinct ys \<Longrightarrow> distinct xs"
  by (auto simp: subseq_conv_nths)

lemma derived_wf: "derived s s' \<Longrightarrow> wf_section s \<Longrightarrow> wf_section s'"
  by (cases s) (auto simp: derived_def wf_proto_def wf_map_def derived_services_def list_all_iff
      intro: subseq_distinct_list distinct_map_filter)

lemma derived_configuration_wf: "derived_configuration c c' \<Longrightarrow> wf_configuration c \<Longrightarrow> wf_configuration c'"
  by (auto simp: derived_configuration_def wf_configuration_def dest: derived_wf)

section \<open>The stages\<close>

lemma narrowed_derived: "narrowed s s' \<Longrightarrow> derived s s'"
proof (cases s)
  case (Some p)
  have "derived_services (Services p) (filter P (Services p))" for P
    by (auto simp: derived_services_def other_servers_def subseq_map)
  with Some show "narrowed s s' \<Longrightarrow> derived s s'" by (auto simp: narrowed_def intro: derived_Some)
qed (simp add: narrowed_def derived_def)

lemma same_services_derived:
  assumes "same_services R m m'"
  shows "derived_services m m'"
proof -
  have "keys_of m' = keys_of m" using assms unfolding same_services_def by (induction rule: list_all2_induct) auto
  moreover have "\<exists>v. (n, v) \<in> set m \<and> other_servers v v'" if "(n, v') \<in> set m'" for n v'
    using assms that unfolding same_services_def
    by (induction rule: list_all2_induct) (auto simp: same_service_def other_servers_def)
  ultimately show ?thesis by (simp add: derived_services_def)
qed

lemma same_section_derived: "same_section R s s' \<Longrightarrow> derived s s'"
  using derived_services_only same_services_derived by (cases s) (fastforce simp: same_section_def derived_def)+

lemma update_derived:
  assumes "map_of svcs n = Some (Some svc)" and "LoadBalancer svc = Some lb"
  shows "derived_services svcs (AList.update n (Some (svc\<lparr>LoadBalancer := Some (lb\<lparr>lb_Servers := ss\<rparr>)\<rparr>)) svcs)"
proof -
  let ?v = "Some (svc\<lparr>LoadBalancer := Some (lb\<lparr>lb_Servers := ss\<rparr>)\<rparr>)"
  have n: "(n, Some svc) \<in> set svcs" using assms(1) by (rule map_of_SomeD)
  have "keys_of (AList.update n ?v svcs) = keys_of svcs" using n by (force simp: update_keys)
  moreover have "\<exists>u. (k, u) \<in> set svcs \<and> other_servers u v" if "(k, v) \<in> set (AList.update n ?v svcs)" for k v
  proof (cases "(k, v) \<in> set svcs")
    case True
    then show ?thesis by (auto simp: other_servers_def)
  next
    case False
    with that set_update_subset [of n ?v svcs] have "k = n" "v = ?v" by auto
    with n assms(2) show ?thesis by (auto simp: other_servers_def)
  qed
  ultimately show ?thesis by (simp add: derived_services_def)
qed

lemma mergeService_derived:
  assumes "mergeService conf svcType ts getKey makeServer n (svcs, w, s) = Some (svcs', w', s')"
  shows "derived_services svcs svcs'"
proof -
  from assms obtain r w1 where r: "serviceContainer conf svcType n w = Some (r, w1)"
    by (auto simp: mergeService_def bind_eq_Some_conv)
  obtain got s1 where g: "ts_Gets ts (storeKey svcType n) s = (got, s1)" by fastforce
  obtain seed w2 where w2: "next_seed w1 = (seed, w2)" by fastforce
  show ?thesis
  proof (cases r)
    case (Inl err)
    with assms r show ?thesis by (simp add: mergeService_def)
  next
    case (Inr c)
    with assms r obtain cfg where "Config c = Some cfg" by (auto simp: mergeService_def bind_eq_Some_conv)
    with assms r g w2 Inr show ?thesis
      by (auto simp: mergeService_def Let_def intro: update_derived split: sum.splits if_splits option.splits)
  qed
qed

lemma mergeGeneric_derived:
  assumes "mergeGenericLoadBalancers conf svcType sec ts getKey makeServer (w, s) = Some (sec', w', s')"
  shows "derived sec sec'"
proof -
  from assms obtain p seed w1 svcs where p: "sec = Some p" "next_seed w = (seed, w1)" "sec' = Some (p\<lparr>Services := svcs\<rparr>)"
    and l: "loop (mergeService conf svcType ts getKey makeServer) (permute seed (keys_of (Services p))) (Services p, w1, s)
      = Some (svcs, w', s')"
    by (cases "next_seed w") (auto simp: mergeGenericLoadBalancers_def bind_eq_Some_conv)
  have "derived_services (Services p) (fst (svcs, w', s'))"
  proof (rule loop_invariant [OF l])
    fix x st st'
    assume "mergeService conf svcType ts getKey makeServer x st = Some st'" "derived_services (Services p) (fst st)"
    then show "derived_services (Services p) (fst st')"
      by (cases st; cases st') (auto dest: mergeService_derived intro: derived_services_trans)
  qed simp
  with p show ?thesis by (simp add: derived_services_only)
qed

lemma mergeLoadBalancers_derived:
  assumes "mergeLoadBalancers conf ts (w, s) = Some (conf', w', s')"
  shows "derived_configuration conf conf'"
  using assms
  by (auto simp: mergeLoadBalancers_def derived_configuration_def bind_eq_Some_conv Let_def dest!: mergeGeneric_derived)

section \<open>The handler\<close>

lemma handler_derives:
  assumes "createConfigHandler config ts dp cl conf (w, s) = Some (w', s')" and "wf_configuration conf"
  shows "\<exists>conf' s1. ts_Store ts conf' s1 = Some (None, s') \<and> derived_configuration conf conf' \<and> wf_configuration conf'"
proof -
  from assms(1) obtain conf1 w1 conf2 w2 conf3 w3 s3 where
    1: "filterServices (Namespace config) conf (w\<lparr>w_cache := fresh_cache cl\<rparr>) = Some (conf1, w1)"
    and 2: "(if \<not> dp_UseBindPortIP dp \<and> \<not> SkipReplace config then replaceIPs (BindIP config) conf1 w1 else Some (conf1, w1))
        = Some (conf2, w2)"
    and 3: "mergeLoadBalancers conf2 ts (w2, s) = Some (conf3, w3, s3)" and 4: "ts_Store ts conf3 s3 = Some (None, s')"
    by (auto simp: createConfigHandler_def Let_def bind_eq_Some_conv split: option.splits)
  have d1: "derived_configuration conf conf1"
    using filterServices_narrows [OF 1] by (auto simp: derived_configuration_def intro: narrowed_derived)
  note w1 = derived_configuration_wf [OF d1 assms(2)]
  have d2: "derived_configuration conf1 conf2"
  proof (cases "\<not> dp_UseBindPortIP dp \<and> \<not> SkipReplace config")
    case True
    with 2 replaceIPs_frame [of "BindIP config" conf1 w1 conf2 w2] w1 show ?thesis
      by (auto simp: derived_configuration_def intro: same_section_derived)
  qed (use 2 in auto)
  note d = derived_configuration_trans [OF derived_configuration_trans [OF d1 d2] mergeLoadBalancers_derived [OF 3]]
  with 4 derived_configuration_wf [OF d assms(2)] show ?thesis by blast
qed

text \<open>
  C25: whatever the docker daemon and Redis answer, when the handler returns, the configuration it has
  published is well formed and comes from the one it was given: no service, router or middleware is
  invented, a router that is left is unchanged, and of a service only the list of its servers differs.
\<close>

theorem handler_keeps_shape:
  assumes "createConfigHandler config (redis_store reflect) dp cl conf (w, s) = Some (w', s')" and "wf_configuration conf"
  shows "\<exists>conf'. lastConfig s' = Some conf' \<and> wf_configuration conf' \<and> derived_configuration conf conf'"
proof -
  from handler_derives [OF assms] obtain conf' s1 where
    c: "Store reflect conf' s1 = Some (None, s')" "derived_configuration conf conf'" "wf_configuration conf'"
    by (auto simp: redis_store_def)
  then have "lastConfig s' = Some conf'"
    using store_stored [of reflect conf' s1 None s'] by (simp add: Store_def stored_def same_store_def)
  with c show ?thesis by blast
qed

theorem handler_keeps_shape_witness:
  "\<exists>w' s' conf'. createConfigHandler sample_config (redis_store sample_reflect) zero_provider (sample_client (web_host []))
      web_conf (sample_world (web_host []), sample_store []) = Some (w', s')
    \<and> lastConfig s' = Some conf' \<and> wf_configuration conf' \<and> derived_configuration web_conf conf'"
proof -
  from handler_run [OF sample_run(1-4) sample_redis sample_run(5-8)] obtain w' s' where
    h: "createConfigHandler sample_config (redis_store sample_reflect) zero_provider (sample_client (web_host []))
      web_conf (sample_world (web_host []), sample_store []) = Some (w', s')" by blast
  have "wf_configuration web_conf" by code_simp
  from handler_keeps_shape [OF h this] h show ?thesis by blast
qed

end
