(* ===== verification/Lifecycle.thy ===== *)
theory Lifecycle
  imports StoreProperties
begin

text \<open>
  The life of a Redis store as a step relation: the handler publishes configurations, the renewal
  loop calls \<open>KeepConfAlive\<close>, time passes and keys expire, Redis loses its data, other clients
  delete keys or write their own. The invariant \<open>guarded\<close> holds in every state that can be reached,
  and from each of them one renewal puts the whole remembered configuration back.
\<close>

section \<open>The states\<close>

definition pairs_of :: "reflection \<Rightarrow> configuration \<Rightarrow> (string \<rightharpoonup> string)" where
  "pairs_of reflect conf = (case ConfigToKV (reflect 0 conf) of Inr m \<Rightarrow> map_of m | Inl _ \<Rightarrow> Map.empty)"

lemma flattens_pairs_of: "flattens reflect conf kv \<Longrightarrow> kv = pairs_of reflect conf"
  unfolding flattens_def pairs_of_def by (metis sum.simps(6))

text \<open>A configuration that can be stored: all three sections, pairs, names without glob characters.\<close>

definition admissible :: "reflection \<Rightarrow> configuration \<Rightarrow> bool" where
  "admissible reflect conf \<longleftrightarrow> flattens reflect conf (pairs_of reflect conf) \<and> plain_services conf
     \<and> (\<exists>sets. tracked conf = Some sets \<and> (\<forall>(b, names) \<in> set sets. \<forall>n \<in> set names. glob_free (k_path b n)))"

text \<open>
  What stays true of the pairs of the remembered configuration: a key that is there has the
  published value, and without a TTL the sentinel is there only together with all of them.
\<close>

definition upheld :: "string \<Rightarrow> int \<Rightarrow> (string \<rightharpoonup> string) \<Rightarrow> keyspace \<Rightarrow> bool" where
  "upheld host ttl kv ks \<longleftrightarrow>
     (\<forall>k v. kv k = Some v \<longrightarrow> ks k = None \<or> (\<exists>e. ks k = Some (RString v, e)))
     \<and> (ttl = 0 \<longrightarrow> ks (sk host ''kop_last_update'') \<noteq> None \<longrightarrow> (\<forall>k v. kv k = Some v \<longrightarrow> ks k = Some (RString v, None)))"

definition guarded :: "('r \<Rightarrow> keyspace) \<Rightarrow> ('r \<Rightarrow> bool) \<Rightarrow> ('r \<Rightarrow> int) \<Rightarrow> reflection \<Rightarrow> 'r RedisStore \<Rightarrow> bool" where
  "guarded db up clock reflect s \<longleftrightarrow> redis (client s) db up clock \<and> up (server s) \<and> 0 \<le> TTL s
     \<and> trackable (Hostname s) (db (server s))
     \<and> (\<forall>conf. lastConfig s = Some conf \<longrightarrow> admissible reflect conf
          \<and> upheld (Hostname s) (TTL s) (pairs_of reflect conf) (db (server s)))"

text \<open>
  What others do to the key space: tracking sets and published keys may disappear but are not
  overwritten, and without a TTL the sentinel disappears with the first of them.
\<close>

definition kept :: "keyspace \<Rightarrow> keyspace \<Rightarrow> string \<Rightarrow> bool" where
  "kept ks ks' k \<longleftrightarrow> ks' k = ks k \<or> ks' k = None"

definition spares :: "reflection \<Rightarrow> 'r RedisStore \<Rightarrow> keyspace \<Rightarrow> keyspace \<Rightarrow> bool" where
  "spares reflect s ks ks' \<longleftrightarrow>
     (\<forall>b \<in> set set_names. kept ks ks' (sk (Hostname s) b) \<and> kept ks ks' (new_key (Hostname s) b))
     \<and> (\<forall>conf k. lastConfig s = Some conf \<longrightarrow> pairs_of reflect conf k \<noteq> None \<longrightarrow> kept ks ks' k
          \<and> (TTL s = 0 \<longrightarrow> ks' (sk (Hostname s) ''kop_last_update'') \<noteq> None \<longrightarrow>
               ks (sk (Hostname s) ''kop_last_update'') \<noteq> None \<and> ks' k = ks k))"

inductive life :: "('r \<Rightarrow> keyspace) \<Rightarrow> ('r \<Rightarrow> bool) \<Rightarrow> ('r \<Rightarrow> int) \<Rightarrow> reflection \<Rightarrow> 'r RedisStore \<Rightarrow> bool"
  for db :: "'r \<Rightarrow> keyspace" and up :: "'r \<Rightarrow> bool" and clock :: "'r \<Rightarrow> int" and reflect :: reflection where
  new_store: "redis (client s) db up clock \<Longrightarrow> up (server s) \<Longrightarrow> 0 \<le> TTL s \<Longrightarrow>
    trackable (Hostname s) (db (server s)) \<Longrightarrow> lastConfig s = None \<Longrightarrow> life db up clock reflect s"
| publishing: "life db up clock reflect s \<Longrightarrow> admissible reflect conf \<Longrightarrow> Store reflect conf s = Some (err, s') \<Longrightarrow>
    life db up clock reflect s'"
| renewal: "life db up clock reflect s \<Longrightarrow> KeepConfAlive reflect s = Some (err, s') \<Longrightarrow> life db up clock reflect s'"
| waiting: "life db up clock reflect s \<Longrightarrow> up r \<Longrightarrow> clock (server s) \<le> clock r \<Longrightarrow>
    db r = expired (clock r) (db (server s)) \<Longrightarrow> life db up clock reflect (s\<lparr>server := r\<rparr>)"
| restarting: "life db up clock reflect s \<Longrightarrow> up r \<Longrightarrow> db r = Map.empty \<Longrightarrow> life db up clock reflect (s\<lparr>server := r\<rparr>)"
| others: "life db up clock reflect s \<Longrightarrow> up r \<Longrightarrow> clock (server s) \<le> clock r \<Longrightarrow>
    spares reflect s (db (server s)) (db r) \<Longrightarrow> life db up clock reflect (s\<lparr>server := r\<rparr>)"

section \<open>The environment keeps the invariant\<close>

lemma tracking_ok_shrinks:
  "tracking_ok host ks b \<Longrightarrow> kept ks ks' (sk host b) \<and> kept ks ks' (new_key host b) \<Longrightarrow> tracking_ok host ks' b"
  by (auto simp: tracking_ok_def set_typed_def members_def kept_def)

lemma trackable_shrinks:
  assumes "trackable host ks" and "\<forall>b \<in> set set_names. kept ks ks' (sk host b) \<and> kept ks ks' (new_key host b)"
  shows "trackable host ks'"
  unfolding trackable_def list_all_iff
  using assms(1) [unfolded trackable_def list_all_iff] assms(2) by (blast intro: tracking_ok_shrinks)

lemma upheld_shrinks:
  assumes "upheld host ttl kv ks"
    and "\<And>k v. kv k = Some v \<Longrightarrow> kept ks ks' k \<and> (ttl = 0 \<longrightarrow> ks' (sk host ''kop_last_update'') \<noteq> None \<longrightarrow>
           ks (sk host ''kop_last_update'') \<noteq> None \<and> ks' k = ks k)"
  shows "upheld host ttl kv ks'"
  unfolding upheld_def
proof (intro conjI allI impI)
  fix k v
  assume k: "kv k = Some v"
  then have "kept ks ks' k" using assms(2) by blast
  moreover have "ks k = None \<or> (\<exists>e. ks k = Some (RString v, e))" using assms(1) k by (simp add: upheld_def)
  ultimately show "ks' k = None \<or> (\<exists>e. ks' k = Some (RString v, e))" by (auto simp: kept_def)
  assume t: "ttl = 0" "ks' (sk host ''kop_last_update'') \<noteq> None"
  with assms(2) [OF k] have "ks (sk host ''kop_last_update'') \<noteq> None" "ks' k = ks k" by blast+
  with assms(1) t(1) k show "ks' k = Some (RString v, None)" by (simp add: upheld_def)
qed

lemma guarded_spares:
  assumes "guarded db up clock reflect s" and "up r" and "spares reflect s (db (server s)) (db r)"
  shows "guarded db up clock reflect (s\<lparr>server := r\<rparr>)"
proof -
  have "trackable (Hostname s) (db r)"
  proof (rule trackable_shrinks)
    show "trackable (Hostname s) (db (server s))" using assms(1) by (simp add: guarded_def)
  qed (rule conjunct1 [OF assms(3) [unfolded spares_def]])
  moreover have "upheld (Hostname s) (TTL s) (pairs_of reflect conf) (db r)" if c: "lastConfig s = Some conf" for conf
  proof (rule upheld_shrinks [of _ _ _ "db (server s)"])
    show "upheld (Hostname s) (TTL s) (pairs_of reflect conf) (db (server s))"
      using assms(1) c by (simp add: guarded_def)
    fix k v
    assume "pairs_of reflect conf k = Some v"
    then have "pairs_of reflect conf k \<noteq> None" by simp
    then show "kept (db (server s)) (db r) k \<and> (TTL s = 0 \<longrightarrow> db r (sk (Hostname s) ''kop_last_update'') \<noteq> None \<longrightarrow>
        db (server s) (sk (Hostname s) ''kop_last_update'') \<noteq> None \<and> db r k = db (server s) k)"
      using assms(3) c unfolding spares_def by simp
  qed
  ultimately show ?thesis using assms(1,2) by (simp add: guarded_def)
qed

lemma kept_expired: "kept ks (expired now ks) k" "ks k = Some (v, None) \<Longrightarrow> expired now ks k = ks k"
  by (auto simp: expired_def kept_def split: option.splits)

lemma spares_expired:
  assumes "guarded db up clock reflect s"
  shows "spares reflect s (db (server s)) (expired now (db (server s)))"
proof -
  let ?ks = "db (server s)" and ?sent = "sk (Hostname s) ''kop_last_update''"
  have none: "?ks ?sent \<noteq> None \<and> expired now ?ks k = ?ks k"
    if "lastConfig s = Some conf" "pairs_of reflect conf k = Some v" "TTL s = 0" "expired now ?ks ?sent \<noteq> None" for conf k v
  proof
    show s: "?ks ?sent \<noteq> None" using that(4) kept_expired(1) [of ?ks now ?sent] by (auto simp: kept_def)
    then have "?ks k = Some (RString v, None)" using assms that(1-3) by (simp add: guarded_def upheld_def)
    then show "expired now ?ks k = ?ks k" by (rule kept_expired(2))
  qed
  show ?thesis unfolding spares_def by (intro conjI ballI allI impI kept_expired(1)) (use none in blast)+
qed

lemma spares_lost: "spares reflect s ks Map.empty"
  by (simp add: spares_def kept_def)

section \<open>The store keeps the invariant\<close>

lemma publish_trackable:
  assumes "publish host ex stamp sets conf kv U ks ks'" and "tracked conf = Some sets"
    and "\<forall>(b, names) \<in> set sets. \<forall>n \<in> set names. glob_free (k_path b n)"
  shows "trackable host ks'"
  unfolding trackable_def list_all_iff
proof
  fix b
  assume "b \<in> set set_names"
  then obtain names where n: "(b, names) \<in> set sets" 
    unfolding tracked_names [OF assms(2), symmetric] by auto
  have at: "CHR ''@'' \<notin> set b" using wf_tracked(1) [OF assms(2)] n by (force simp: wf_sets_def)
  have "ks' (sk host b) = (if names = [] then None else Some (RSet (set names), None))" "ks' (new_key host b) = None"
    using assms(1) n unfolding publish_def by blast+
  moreover have "\<forall>n \<in> set names. glob_free (k_path b n)" using assms(3) n by blast
  ultimately show "tracking_ok host ks' b" using at by (simp add: tracking_ok_def set_typed_def members_def)
qed

lemma guarded_Store:
  assumes "guarded db up clock reflect s" and "admissible reflect conf"
  shows "\<exists>s'. Store reflect conf s = Some (None, s') \<and> guarded db up clock reflect s'
    \<and> same_store (s\<lparr>lastConfig := Some conf\<rparr>) s' \<and> clock (server s') = clock (server s)
    \<and> (\<forall>k v. pairs_of reflect conf k = Some v \<longrightarrow>
         db (server s') k = Some (RString v, expiry (clock (server s)) (TTL s)))"
proof -
  from assms(2) obtain sets where sets: "tracked conf = Some sets"
    "\<forall>(b, names) \<in> set sets. \<forall>n \<in> set names. glob_free (k_path b n)" unfolding admissible_def by blast
  have red: "redis (client s) db up clock" using assms(1) by (simp add: guarded_def)
  have "storable db up reflect conf sets (pairs_of reflect conf) s"
    using assms sets(1) by (simp add: storable_def guarded_def admissible_def)
  from red this show ?thesis
  proof (rule store_effect)
    fix s' stamp U
    assume s': "Store reflect conf s = Some (None, s')" "up (server s')" "clock (server s') = clock (server s)"
        "same_store (s\<lparr>lastConfig := Some conf\<rparr>) s'"
      and p: "publish (Hostname s) (expiry (clock (server s)) (TTL s)) stamp sets conf (pairs_of reflect conf) U
        (db (server s)) (db (server s'))"
    have same: "Hostname s' = Hostname s" "TTL s' = TTL s" "lastConfig s' = Some conf" "client s' = client s"
      using s'(4) by (simp_all add: same_store_def)
    have pairs: "\<forall>k v. pairs_of reflect conf k = Some v \<longrightarrow>
        db (server s') k = Some (RString v, expiry (clock (server s)) (TTL s))"
      using p by (simp add: publish_def)
    then have "upheld (Hostname s) (TTL s) (pairs_of reflect conf) (db (server s'))"
      by (auto simp: upheld_def expiry_def)
    moreover have "0 \<le> TTL s" using assms(1) by (simp add: guarded_def)
    ultimately have "guarded db up clock reflect s'"
      using red s'(2) same assms(2) publish_trackable [OF p sets] by (simp add: guarded_def)
    with s' pairs show ?thesis by blast
  qed
qed

text \<open>One renewal, whatever the state of the sentinel and of the keys.\<close>

lemma upheld_renewed:
  assumes "upheld host ttl kv ks" and "ttl \<noteq> 0"
  shows "upheld host ttl kv (renewed e kv sent ks)"
  using assms by (auto simp: upheld_def renewed_def)

lemma trackable_renewed:
  assumes "trackable host ks"
  shows "trackable host (renewed e kv (sk host ''kop_last_update'') ks)"
proof -
  have "tracking_ok host (renewed e kv (sk host ''kop_last_update'') ks) b" if "tracking_ok host ks b" for b
    using that by (auto simp: tracking_ok_def set_typed_def members_def renewed_def split: option.splits)
  with assms show ?thesis unfolding trackable_def list_all_iff by blast
qed

lemma guarded_reach:
  assumes "guarded db up clock reflect s" and "redis.reach (client s) db up clock s s' ks"
    and "trackable (Hostname s) ks"
    and "\<forall>conf. lastConfig s = Some conf \<longrightarrow> upheld (Hostname s) (TTL s) (pairs_of reflect conf) ks"
  shows "guarded db up clock reflect s' \<and> same_store s s' \<and> clock (server s') = clock (server s) \<and> db (server s') = ks"
proof -
  have red: "redis (client s) db up clock" using assms(1) by (simp add: guarded_def)
  have "same_store s s'" "up (server s')" "clock (server s') = clock (server s)" "db (server s') = ks"
    using assms(2) redis.reach_def [OF red] redis.ok_def [OF red] by auto
  with assms show ?thesis by (simp add: guarded_def same_store_def)
qed

lemma guarded_idle:
  assumes "guarded db up clock reflect s" and "lastConfig s = Some conf" and "TTL s = 0"
    and "db (server s) (sk (Hostname s) ''kop_last_update'') \<noteq> None"
  shows "\<exists>s'. KeepConfAlive reflect s = Some (None, s') \<and> redis.reach (client s) db up clock s s' (db (server s))"
proof -
  let ?sent = "sk (Hostname s) ''kop_last_update''"
  have red: "redis (client s) db up clock" and up: "up (server s)" using assms(1) by (simp_all add: guarded_def)
  have "\<exists>r'. rc_Exists (client s) ?sent (server s) = (Inr 1, r') \<and> up r' \<and> clock r' = clock (server s) \<and> db r' = db (server s)"
    using redis.Exists_law [OF red up, of ?sent] assms(4) by simp
  from redis.call_reach [OF red, of s "\<lambda>c. rc_Exists c ?sent", OF _ this] up redis.ok_def [OF red]
  obtain s1 where 1: "call (\<lambda>c. rc_Exists c ?sent) s = (Inr 1, s1)"
    "redis.reach (client s) db up clock s s1 (db (server s))" by blast
  have "TTL s1 = 0" using 1(2) assms(3) redis.reach_def [OF red] by (simp add: same_store_def)
  then have "KeepConfAlive reflect s = Some (None, s1)" using assms(2) 1(1) by (simp add: KeepConfAlive_def Let_def)
  with 1(2) show ?thesis by blast
qed

lemma guarded_restored:
  assumes "guarded db up clock reflect s" and "lastConfig s = Some conf" and "same_store t s"
    and "clock (server s) = clock (server t)" and "lastConfig t = Some conf"
  shows "\<exists>s'. store reflect conf s = Some (None, s') \<and> guarded db up clock reflect s' \<and> same_store t s'
    \<and> clock (server s') = clock (server t)
    \<and> (\<forall>k v. pairs_of reflect conf k = Some v \<longrightarrow> db (server s') k = Some (RString v, expiry (clock (server t)) (TTL t)))"
proof -
  have "admissible reflect conf" using assms(1,2) by (simp add: guarded_def)
  from guarded_Store [OF assms(1) this] assms(3-5) show ?thesis by (auto simp: Store_def same_store_def)
qed

lemma guarded_timed:
  assumes "guarded db up clock reflect s" and "lastConfig s = Some conf" and "0 < TTL s"
    and "db (server s) (sk (Hostname s) ''kop_last_update'') \<noteq> None"
  shows "\<exists>s'. KeepConfAlive reflect s = Some (None, s') \<and> guarded db up clock reflect s' \<and> same_store s s'
    \<and> clock (server s') = clock (server s)
    \<and> (\<forall>k v. pairs_of reflect conf k = Some v \<longrightarrow> db (server s') k = Some (RString v, expiry (clock (server s)) (TTL s)))"
proof -
  let ?sent = "sk (Hostname s) ''kop_last_update''" and ?kv = "pairs_of reflect conf" and ?ks = "db (server s)"
  have red: "redis (client s) db up clock" and ok: "redis.ok (client s) up s" and tr: "trackable (Hostname s) ?ks"
    and u: "upheld (Hostname s) (TTL s) ?kv ?ks" and fl: "flattens reflect conf ?kv"
    using assms(1,2) redis.ok_def [of "client s"] by (auto simp: guarded_def admissible_def)
  let ?ks' = "renewed (clock (server s) + TTL s) ?kv ?sent ?ks"
  from redis.KeepConfAlive_checks [OF red ok assms(2) assms(3) fl assms(4)] obtain s1 where
    s1: "redis.reach (client s) db up clock s s1 ?ks'"
      "KeepConfAlive reflect s = (if \<forall>k. ?kv k \<noteq> None \<longrightarrow> ?ks k \<noteq> None then Some (None, s1) else store reflect conf s1)"
    by blast
  have g: "guarded db up clock reflect s1" "same_store s s1" "clock (server s1) = clock (server s)" "db (server s1) = ?ks'"
    using guarded_reach [OF assms(1) s1(1) trackable_renewed [OF tr]] upheld_renewed [OF u] assms(3) assms(2) by auto
  show ?thesis
  proof (cases "\<forall>k. ?kv k \<noteq> None \<longrightarrow> ?ks k \<noteq> None")
    case True
    have "db (server s1) k = Some (RString v, Some (clock (server s) + TTL s))" if k: "?kv k = Some v" for k v
    proof -
      have "?ks k \<noteq> None" using True k by simp
      moreover have "?ks k = None \<or> (\<exists>e. ?ks k = Some (RString v, e))"
        using conjunct1 [OF u [unfolded upheld_def]] k by simp
      ultimately obtain e where "?ks k = Some (RString v, e)" by auto
      then show ?thesis using k by (simp add: g(4) renewed_def)
    qed
    moreover have "KeepConfAlive reflect s = Some (None, s1)" using s1(2) True by argo
    ultimately show ?thesis using g(1-3) assms(3) by (simp add: expiry_def)
  next
    case False
    then have "KeepConfAlive reflect s = store reflect conf s1" using s1(2) by argo
    with guarded_restored [OF g(1) _ g(2,3) assms(2)] g(2) assms(2) show ?thesis by (simp add: same_store_def)
  qed
qed

lemma guarded_KeepConfAlive:
  assumes "guarded db up clock reflect s" and "lastConfig s = Some conf"
  shows "\<exists>s'. KeepConfAlive reflect s = Some (None, s') \<and> guarded db up clock reflect s' \<and> same_store s s'
    \<and> clock (server s') = clock (server s)
    \<and> (\<forall>k v. pairs_of reflect conf k = Some v \<longrightarrow> db (server s') k = Some (RString v, expiry (clock (server s)) (TTL s)))"
proof -
  let ?sent = "sk (Hostname s) ''kop_last_update''" and ?kv = "pairs_of reflect conf" and ?ks = "db (server s)"
  have red: "redis (client s) db up clock" and ok: "redis.ok (client s) up s" and tr: "trackable (Hostname s) ?ks"
    and u: "upheld (Hostname s) (TTL s) ?kv ?ks" and ttl: "0 \<le> TTL s"
    using assms redis.ok_def [of "client s"] by (auto simp: guarded_def admissible_def)
  consider (lost) "?ks ?sent = None" | (idle) "?ks ?sent \<noteq> None" "TTL s = 0" | (timed) "?ks ?sent \<noteq> None" "0 < TTL s"
    using ttl by force
  then show ?thesis
  proof cases
    case lost
    from redis.KeepConfAlive_restores [OF red ok assms(2) lost] obtain s1 where
      s1: "redis.reach (client s) db up clock s s1 ?ks" "KeepConfAlive reflect s = store reflect conf s1" by blast
    have g: "guarded db up clock reflect s1" "same_store s s1" "clock (server s1) = clock (server s)"
      using guarded_reach [OF assms(1) s1(1) tr] u assms(2) by auto
    from guarded_restored [OF g(1) _ g(2,3) assms(2)] g(2) assms(2) s1(2) show ?thesis by (simp add: same_store_def)
  next
    case idle
    from guarded_idle [OF assms idle(2,1)] obtain s1 where
      s1: "KeepConfAlive reflect s = Some (None, s1)" "redis.reach (client s) db up clock s s1 ?ks" by blast
    have "guarded db up clock reflect s1 \<and> same_store s s1 \<and> clock (server s1) = clock (server s) \<and> db (server s1) = ?ks"
      using guarded_reach [OF assms(1) s1(2) tr] u assms(2) by auto
    with s1(1) u idle show ?thesis by (simp add: upheld_def expiry_def)
  next
    case timed
    show ?thesis by (rule guarded_timed [OF assms timed(2,1)])
  qed
qed

lemma life_guarded: "life db up clock reflect s \<Longrightarrow> guarded db up clock reflect s"
proof (induction rule: life.induct)
  case (new_store s)
  then show ?case by (simp add: guarded_def)
next
  case (publishing s conf err s')
  then show ?case using guarded_Store [of db up clock reflect s conf] by auto
next
  case (renewal s err s')
  then show ?case
    using guarded_KeepConfAlive [of db up clock reflect s] by (cases "lastConfig s") (auto simp: KeepConfAlive_def)
next
  case (waiting s r)
  then show ?case using guarded_spares [of db up clock reflect s r] spares_expired [of db up clock reflect s] by simp
next
  case (restarting s r)
  then show ?case using guarded_spares [of db up clock reflect s r] spares_lost [of reflect s] by simp
next
  case (others s r)
  show ?case by (rule guarded_spares [OF others.IH others.hyps(2,4)])
qed

section \<open>Renewal\<close>


lemma web_admissible: "admissible sample_reflect web_conf"
proof -
  have "tracked web_conf = Some web_sets" "plain_services web_conf" by code_simp+
  moreover have "list_all (\<lambda>(b, names). list_all (\<lambda>n. glob_free (k_path b n)) names) web_sets" by code_simp
  ultimately show ?thesis
    using web_flattens flattens_pairs_of [OF web_flattens] by (auto simp: admissible_def list_all_iff)
qed

lemma sample_life: "life mem_keys (\<lambda>_. True) mem_clock sample_reflect (sample_store sample_db)"
  using sample_storable sample_redis by (intro new_store) (simp_all add: storable_def sample_store_def)


section \<open>Publishing again\<close>

lemma old_keys_published:
  assumes "publish host ex stamp sets conf kv U ks ks'"
  shows "old_keys host sets ks' = {}"
proof -
  have "old_names host b names ks' = {}" if "(b, names) \<in> set sets" for b names
  proof -
    have "ks' (sk host b) = (if names = [] then None else Some (RSet (set names), None))"
      using assms that unfolding publish_def by blast
    then show ?thesis by (simp add: old_names_def members_def)
  qed
  then show ?thesis by (auto simp: old_keys_def under_def)
qed

text \<open>After a publication the next one of the same configuration finds the key space as it will leave it.\<close>

lemma publish_again:
  assumes "publish host ex stamp sets conf kv U ks ks1" and "publish host ex stamp' sets conf kv V ks1 ks2"
    and "V \<subseteq> old_keys host sets ks1" and "k \<noteq> sk host ''kop_last_update''"
  shows "ks2 k = ks1 k"
proof -
  have V: "V = {}" using assms(3) old_keys_published [OF assms(1)] by simp
  consider (pair) v where "kv k = Some v" | (set) b where "b \<in> set (keys_of sets)" "k = sk host b \<or> k = new_key host b"
    | (other) "kv k = None" "\<forall>b \<in> set (keys_of sets). k \<noteq> sk host b \<and> k \<noteq> new_key host b"
    by (cases "kv k") auto
  then show ?thesis
  proof cases
    case (pair v)
    with assms(1,2) show ?thesis by (simp add: publish_def)
  next
    case (set b)
    then obtain names where "(b, names) \<in> set sets" by auto
    then have "ks1 (sk host b) = ks2 (sk host b)" "ks1 (new_key host b) = ks2 (new_key host b)"
      using assms(1,2) unfolding publish_def by fastforce+
    with set(2) show ?thesis by auto
  next
    case other
    with assms(1,2,4) V have "ks2 k = (if k \<in> stale_keys conf then None else ks1 k)"
      "ks1 k = (if k \<in> U \<union> stale_keys conf then None else ks k)" by (simp_all add: publish_def)
    then show ?thesis by auto
  qed
qed

text \<open>
  C14: publishing is idempotent: storing a configuration a second time changes nothing but the time stamp of
  the sentinel, so the polls that deliver the same configuration over and over do not disturb
  what traefik reads, whatever was in Redis before the first of them.
\<close>

theorem store_idempotent:
  assumes "life db up clock reflect s" and "admissible reflect conf"
  shows "\<exists>s1 s2. Store reflect conf s = Some (None, s1) \<and> Store reflect conf s1 = Some (None, s2)
    \<and> lastConfig s2 = lastConfig s1
    \<and> (\<forall>k. k \<noteq> sk (Hostname s) ''kop_last_update'' \<longrightarrow> db (server s2) k = db (server s1) k)"
proof -
  obtain sets where sets: "tracked conf = Some sets" using assms(2) unfolding admissible_def by blast
  have g: "guarded db up clock reflect s" using life_guarded [OF assms(1)] .
  have storable: "storable db up reflect conf sets (pairs_of reflect conf) t" "redis (client t) db up clock"
    if "guarded db up clock reflect t" for t
    using that assms(2) sets by (simp_all add: storable_def guarded_def admissible_def)
  show ?thesis
  proof (rule store_effect [OF storable(2,1) [OF g]])
    fix s1 stamp U
    assume 1: "Store reflect conf s = Some (None, s1)" "clock (server s1) = clock (server s)"
        "same_store (s\<lparr>lastConfig := Some conf\<rparr>) s1"
      and p1: "publish (Hostname s) (expiry (clock (server s)) (TTL s)) stamp sets conf (pairs_of reflect conf) U
        (db (server s)) (db (server s1))"
    have g1: "guarded db up clock reflect s1" using guarded_Store [OF g assms(2)] 1(1) by auto
    have h: "Hostname s1 = Hostname s" "TTL s1 = TTL s" "lastConfig s1 = Some conf" using 1(3) by (simp_all add: same_store_def)
    show ?thesis
    proof (rule store_effect [OF storable(2,1) [OF g1]])
      fix s2 stamp' V
      assume 2: "Store reflect conf s1 = Some (None, s2)" "same_store (s1\<lparr>lastConfig := Some conf\<rparr>) s2"
        and V: "V \<subseteq> old_keys (Hostname s1) sets (db (server s1))"
        and p2: "publish (Hostname s1) (expiry (clock (server s1)) (TTL s1)) stamp' sets conf (pairs_of reflect conf) V
          (db (server s1)) (db (server s2))"
      have "\<forall>k. k \<noteq> sk (Hostname s) ''kop_last_update'' \<longrightarrow> db (server s2) k = db (server s1) k"
        using publish_again [OF p1] p2 V unfolding h 1(2) by blast
      moreover have "lastConfig s2 = lastConfig s1" using 2(2) h(3) by (simp add: same_store_def)
      ultimately show ?thesis using 1(1) 2(1) by blast
    qed
  qed
qed

theorem store_idempotent_witness:
  "\<exists>s1 s2. Store sample_reflect web_conf (sample_store sample_db) = Some (None, s1)
    \<and> Store sample_reflect web_conf s1 = Some (None, s2)
    \<and> mem_keys (server s2) ''traefik_http_services@node1'' = mem_keys (server s1) ''traefik_http_services@node1''"
proof -
  have "''traefik_http_services@node1'' \<noteq> sk (Hostname (sample_store sample_db)) ''kop_last_update''" by code_simp
  with store_idempotent [OF sample_life web_admissible] show ?thesis by blast
qed

end
