(* ===== verification/Program.thy ===== *)
theory Program
  imports Shape Lifecycle
begin

text \<open>
  The program as a whole: \<open>main\<close> of \<^verbatim>\<open>bin/traefik-kop/main.go\<close> down to \<open>Start\<close>, the bounds of the
  TTL and of the renewal interval of a running program.
\<close>

section \<open>The program\<close>

text \<open>
  What the command-line package makes of the arguments: the version is asked for, they are wrong, or
  the action runs with the context of its flags.
\<close>

datatype cli_run = ShowVersion | CliError string | Action cli_context

text \<open>The call of \<open>app.Run\<close> at the end of \<open>flags\<close>; \<open>action\<close> is \<open>doStart\<close> and what it starts.\<close>

definition flags_run :: "(cli_app \<Rightarrow> cli_run) \<Rightarrow> string + string \<Rightarrow> build_info \<Rightarrow> (build_info \<Rightarrow> cli_context \<Rightarrow> 'a outcome)
    \<Rightarrow> 'a outcome" where
  "flags_run Run os_Hostname b action =
     (let b = build_defaults b;
          app = app_of b (getHostname os_Hostname)
      in case Run app of
           ShowVersion \<Rightarrow> Exited (printVersion b app)
         | CliError err \<Rightarrow> Fatal err
         | Action c \<Rightarrow> action b c)"

definition main :: "(cli_app \<Rightarrow> cli_run) \<Rightarrow> string + string \<Rightarrow> network \<Rightarrow> files \<Rightarrow> ('pool, 'cert) x509
    \<Rightarrow> (('pool, 'cert) tls_config redis_options \<Rightarrow> 'r redis_client \<times> 'r) \<Rightarrow> (nat \<Rightarrow> int) \<Rightarrow> (nat \<Rightarrow> nat)
    \<Rightarrow> (docker_provider \<Rightarrow> string option) \<Rightarrow> (client_opt list \<Rightarrow> string + 'cl) \<Rightarrow> 'addr tcp \<Rightarrow> build_info
    \<Rightarrow> 'r started outcome" where
  "main Run os_Hostname net fs x dial clock seed init NewClientWithOpts tcp b =
     flags_run Run os_Hostname b (\<lambda>b c.
       case doStart net c of
         Inl msg \<Rightarrow> Fatal msg
       | Inr (_, config) \<Rightarrow> Start fs x dial clock seed init (bi_version b) NewClientWithOpts tcp config)"

text \<open>A running program comes from a command line that passed the checks.\<close>

lemma main_Running:
  assumes "main run os_Hostname net fs x dial clock seed init new tcp b = Running st"
  obtains c levels config where "run (app_of (build_defaults b) (getHostname os_Hostname)) = Action c"
    and "doStart net c = Inr (levels, config)"
    and "Start fs x dial clock seed init (bi_version (build_defaults b)) new tcp config = Running st"
  using assms by (auto simp: main_def flags_run_def Let_def split: cli_run.splits sum.splits)

lemma Start_store:
  assumes "Start fs x dial clock seed init version new tcp config = Running st"
  shows "st_renew st = (if 0 < sint (RedisTTL config) then Some (renew_interval (RedisTTL config)) else None)
    \<and> TTL (st_store st) = sint (seconds (RedisTTL config)) \<and> Hostname (st_store st) = cfg_Hostname config
    \<and> lastConfig (st_store st) = None"
  using assms [unfolded Start_def]
proof (cases rule: start_docker_Running)
  case (direct dp)
  from start_store_Running [OF direct(4)] show ?thesis by simp
next
  case (proxied dp dp' config' port)
  from start_store_Running [OF proxied(6)] proxied(4) show ?thesis by simp
qed

text \<open>
  The store of a program that has just started begins a \<open>life\<close>, when Redis obeys the laws and the host
  has left no half-written tracking set: the facts about \<open>life\<close> hold for the program from then on.
\<close>

lemma running_store_life:
  assumes "Start fs x dial clock seed init version new tcp config = Running st"
    and "redis (client (st_store st)) db up time" and "up (server (st_store st))"
    and "0 \<le> sint (RedisTTL config)" and "sint (RedisTTL config) \<le> 9223372036"
    and "trackable (cfg_Hostname config) (db (server (st_store st)))"
  shows "life db up time reflect (st_store st)"
  using Start_store [OF assms(1)] assms sint_seconds [OF assms(4,5)] by (intro new_store) simp_all

section \<open>Durations that overflow\<close>

lemma sint_seconds_overflow:
  assumes "9223372036 < sint n" and "sint n \<le> 18446744073"
  shows "sint (seconds n) = sint n * 1000000000 - 2 ^ 64"
proof -
  have "seconds n = word_of_int (sint n * 1000000000)" by (simp add: seconds_def)
  also have "\<dots> = word_of_int (sint n * 1000000000 - 2 ^ 64)"
    by (simp add: word_of_int_eq_iff take_bit_eq_mod mod_diff_right_eq)
  finally show ?thesis using assms sint_small [of "sint n * 1000000000 - 2 ^ 64"] by simp
qed

lemma sint_quot_negative:
  assumes "sint d < 0" and "0 < k"
  shows "sint (quot d k) \<le> 0"
proof -
  have b: "- (2 ^ 63) \<le> sint d" using sint_ge [of d] by simp
  have "\<bar>sint d\<bar> div k \<le> \<bar>sint d\<bar>" "0 \<le> \<bar>sint d\<bar> div k"
    using assms zdiv_mono2 [of "\<bar>sint d\<bar>" 1 k] by (simp_all add: pos_imp_zdiv_nonneg_iff)
  moreover have "quot d k = word_of_int (- (\<bar>sint d\<bar> div k))" using assms(1) by (simp add: quot_def)
  ultimately show ?thesis using b assms(1) sint_small [of "- (\<bar>sint d\<bar> div k)"] by simp
qed

lemma renew_interval_overflow:
  assumes "9223372036 < sint ttl" and "sint ttl \<le> 18446744073"
  shows "sint (seconds ttl) < 0 \<and> sint (renew_interval ttl) \<le> 0"
proof -
  have "sint (seconds ttl) < 0" using sint_seconds_overflow [OF assms] assms(2) by simp
  then show ?thesis using sint_quot_negative [of "seconds ttl" 3] by (simp add: renew_interval_def)
qed

section \<open>Properties\<close>


text \<open>A program without a docker configuration file and without TLS starts, behind the proxy.\<close>

definition no_tls :: RedisTLSConfig where
  "no_tls = \<lparr>tls_Enabled = False, tls_CAFile = [], tls_CertFile = [], tls_KeyFile = [], tls_ServerName = [],
     tls_InsecureSkipVerify = False\<rparr>"

definition no_x509 :: "(unit, unit) x509" where
  "no_x509 = \<lparr>AppendCertsFromPEM = (\<lambda>_. None), LoadX509KeyPair = (\<lambda>_ _. Inl [])\<rparr>"

definition mem_dial :: "(unit, unit) tls_config redis_options \<Rightarrow> mem redis_client \<times> mem" where
  "mem_dial opts = (mem_client, \<lparr>mem_db = [], mem_clock = 0\<rparr>)"

definition sample_app_run :: "cli_app \<Rightarrow> cli_run" where
  "sample_app_run app = Action \<lparr>cli_args = sample_args, cli_env = (\<lambda>_. None), cli_parse = (\<lambda>v _. v), cli_flags = app_Flags app\<rparr>"

definition no_build :: build_info where
  "no_build = \<lparr>bi_version = [], bi_commit = [], bi_date = []\<rparr>"

lemma plain_Start_runs:
  assumes "DockerConfig config = []" and "RedisTLS config = no_tls"
  shows "\<exists>st. Start yaml_endpoint no_x509 mem_dial clock seed (\<lambda>_. None) version (\<lambda>_. Inr ()) local_tcp config = Running st"
proof -
  have "getAvailablePort local_tcp = Inr 80" by (simp add: getAvailablePort_def local_tcp_def)
  with assms show ?thesis
    by (simp add: Start_def start_docker_def start_store_def or_fatal_def newDockerProvider_def loadDockerConfig_def
        Build_def no_tls_def start_endpoint_def createDockerClient_def getClientOpts_def NewRedisStore_def Ping_def call_def
        mem_dial_def mem_client_def zero_provider_def MultiProvider_def polling_Init_def provider_of_def Let_def)
qed

lemma sample_app_context:
  "sample_app_run (app_of (build_defaults no_build) (getHostname (Inr ''host''))) = Action (sample_cli sample_args)"
  by (simp add: sample_app_run_def app_of_def getHostname_def sample_cli_def)

lemma sample_main_runs:
  "\<exists>st. main sample_app_run (Inr ''host'') sample_network yaml_endpoint no_x509 mem_dial (\<lambda>_. 0) (\<lambda>_. 0) (\<lambda>_. None)
     (\<lambda>_. Inr ()) local_tcp no_build = Running st"
proof -
  have "case doStart sample_network (sample_cli sample_args) of Inl _ \<Rightarrow> False
      | Inr (_, config) \<Rightarrow> DockerConfig config = [] \<and> RedisTLS config = no_tls" by code_simp
  then obtain levels config where "doStart sample_network (sample_cli sample_args) = Inr (levels, config)"
    "DockerConfig config = []" "RedisTLS config = no_tls" by (auto split: sum.splits)
  with plain_Start_runs [of config "\<lambda>_. 0" "\<lambda>_. 0" "bi_version (build_defaults no_build)"] show ?thesis
    by (simp add: main_def flags_run_def Let_def sample_app_context)
qed


end
