(* ===== verification/Spec2Isabelle.thy ===== *)
theory Spec2Isabelle
  imports Program
begin

text \<open>
  \<^bold>\<open>A verification of traefik-kop.\<close>

  traefik-kop runs beside docker on every node. traefik's docker provider, which it embeds, turns the
  labels of the containers into a dynamic configuration; traefik-kop removes what belongs to other
  namespaces, replaces the container addresses by addresses that other hosts can reach, merges load
  balancers with the servers that other nodes have published, flattens the result into key/value pairs
  and publishes them in Redis, where a central traefik reads them. A proxy in front of the docker API
  hides containers and takes a prefix off their labels; two loops poll docker and renew the keys.

  \<^bold>\<open>The theories, the code they model and what they show.\<close>

  \<^item> \<open>Prelude\<close>: Go maps as association lists with distinct keys, the unspecified order of \<open>range\<close> loops as a
    permutation chosen by a seed (every permutation has one), loops in the option monad, and the
    lemmas on them that all components use.
  \<^item> \<open>GoStrings\<close>, \<open>GoNet\<close>: the functions of the packages strings, strconv, fmt, net and net/url that the
    code calls (\<open>TrimSpace\<close>, \<open>Split\<close>, \<open>ParseBool\<close>, \<open>Sprintf\<close> without arguments, \<open>SplitHostPort\<close>, \<open>url.Parse\<close> and
    \<open>URL.String\<close>), with the lemmas that a plain URL is parsed into its parts and printed back.
  \<^item> \<open>Util\<close>: \<^verbatim>\<open>util.go\<close> and \<open>stripDocker\<close>.
  \<^item> \<open>KV\<close>: \<^verbatim>\<open>kv.go\<close>. Go's reflection is an explicit tree of reflected values (\<open>gval\<close>); the walker with its
    accumulator is proved equal to a denotation (\<open>entries\<close>), independent of map iteration.
  \<^item> \<open>Docker\<close>: \<^verbatim>\<open>docker.go\<close>, the container cache (record \<open>dockerCache\<close> inside a \<open>world\<close> that also holds the clock,
    the iteration seeds and the tick at which the daemon answers) and the port bindings. The contract of
    a lookup is the locale \<open>container_lookup\<close>; a \<open>settled\<close> world has its containers loaded, or is empty in
    front of a daemon that answers steadily.
  \<^item> \<open>Dynamic\<close>: the fields of traefik's configuration that the program reads or writes.
  \<^item> \<open>Resolve\<close>, \<open>Namespaces\<close>, \<open>Replace\<close>, \<open>Merge\<close>: \<^verbatim>\<open>traefik_kop.go\<close>, from \<open>getRouterOfService\<close> to
    \<open>mergeGenericLoadBalancers\<close>. Each stage is compared with a pure function on the owners of the services
    (\<open>filtered_configuration\<close>, \<open>published_configuration\<close>, \<open>merged_configuration\<close>), and its frame is proved for
    every behaviour of the daemon. The two uses of the generic merge are interpretations of the locale
    \<open>server_kind\<close>.
  \<^item> \<open>Redis\<close>, \<open>Store\<close>, \<open>Publish\<close>, \<open>StoreProperties\<close>: \<^verbatim>\<open>store.go\<close>. The client is a record of commands; the locale
    \<open>redis\<close> states the laws of the commands on an abstract key space, and an in-memory server is an
    interpretation of it. \<open>Store\<close> is proved to implement the abstract \<open>publish\<close>, \<open>KeepConfAlive\<close> to renew or
    restore the configuration.
  \<^item> \<open>Lifecycle\<close>: the life of a store as a step relation (publishing, renewing, waiting while keys expire, a
    Redis that loses its data, other clients), its invariant \<open>guarded\<close>, that one renewal restores the remembered
    configuration from every reachable state, and that publishing a configuration twice is publishing it once.
  \<^item> \<open>Proxy\<close>: \<^verbatim>\<open>docker_proxy.go\<close>, the handlers and their routes, the event stream as a function of the turns of its
    loop with the turns that end it, and the container cache as a client of the proxy.
  \<^item> \<open>Startup\<close>: \<^verbatim>\<open>config.go\<close>, \<^verbatim>\<open>redis_tls.go\<close>, \<open>NewRedisStore\<close>, the docker client's options and
    \<^verbatim>\<open>bin/traefik-kop/main.go\<close> with its flag table, log levels and bind address. Go's integers and durations
    are 64-bit words.
  \<^item> \<open>Provider\<close>: \<^verbatim>\<open>multi_provider.go\<close>, \<^verbatim>\<open>polling_provider.go\<close> as a step relation with its invariant, the listener of
    \<^verbatim>\<open>configuration_watcher.go\<close>, and \<open>keepStoreAlive\<close>.
  \<^item> \<open>Handler\<close>: \<open>createConfigHandler\<close> and \<open>Start\<close>, the composition: a new configuration is published in Redis
    exactly as the stages specify, and which docker endpoint each part of the program uses.
  \<^item> \<open>Shape\<close>: what the handler keeps of a configuration whatever the daemon and Redis answer (\<open>derived\<close>).
  \<^item> \<open>Program\<close>: \<open>main\<close> down to \<open>Start\<close>, the bounds of the TTL and the renewal interval of a running program.
  \<^item> \<open>Samples\<close>: a docker host and a configuration on which the properties are exercised; \<open>Lookup\<close>: the
    properties of the container lookup.

  \<^bold>\<open>Conventions.\<close> A run-time panic is \<open>None\<close>, an error that the code returns is a value (\<open>Inl\<close>, or \<open>Some\<close> text of
  an optional error), \<open>log.Fatal\<close> is \<open>Fatal\<close> or \<open>Inl\<close>. Third-party code is an argument: the docker, Redis and
  traefik packages, the YAML decoder, certificates, files, the HTTP framework, the command-line
  package. Properties that rely on it name what they rely on: the laws of the locale \<open>redis\<close>, a daemon that
  answers steadily within the life time of the cache (\<open>brisk\<close>, \<open>steady\<close>), a store that nobody else changes
  while a configuration is handled (\<open>quiet\<close>), other clients that may delete the keys of the host but do not
  overwrite them (\<open>spares\<close>).

  \<^bold>\<open>Bounds.\<close> All functions of the model are total; no fuel is needed. The loops over channels
  (\<open>write_events\<close>, \<open>renew_loop\<close>) are functions of the finite list of what they have received so far, the
  polling loop is a relation whose reachable states are considered. TTLs up to 9223372036 seconds do
  not overflow a duration; beyond that the product wraps around.

  \<^bold>\<open>Not modelled.\<close> Log output; sockets, HTTP and JSON encoding of the proxy; the parsing of the command line;
  traefik's watcher and provider aggregator, which call the listeners in the order in which they were
  added; \<open>dumpJson\<close>, \<open>logJSON\<close> and the pattern \<open>svcAddrRe\<close>, which only produce debugging output; \<open>mkslice\<close>, a
  conversion of types; \<^verbatim>\<open>testing/helloworld\<close>, a demo server.
  Mutexes are not represented: every operation that writes the store, and every operation on the
  attempts of the polling provider, holds its mutex from beginning to end and is one step of the model.
\<close>

end
